theory Spec2Isabelle
  imports Complex_Main
begin

section \<open>Python values and exceptions\<close>

text \<open>
  The program is the Python script \<^verbatim>\<open>eu4_autobackup.py\<close>. Its functions are embedded
  as HOL functions. A Python call either returns or raises; a raise is the value
  \<open>Inl e\<close> of a sum type, so that every \<^verbatim>\<open>try\<close>/\<^verbatim>\<open>except\<close> of the source is a case
  distinction of the model and an exception no handler catches stays visible in the
  result.
\<close>

datatype exn =
    FileNotFoundError
  | PermissionError
  | OSError
  | ValueError
  | TypeError
  | IndexError
  | OverflowError
  | ZeroDivisionError
  | KeyboardInterrupt

text \<open>
  \<^verbatim>\<open>except Exception\<close> catches every exception above except \<open>KeyboardInterrupt\<close>, which
  derives from \<^verbatim>\<open>BaseException\<close> only.
\<close>

fun is_Exception :: "exn \<Rightarrow> bool" where
  "is_Exception KeyboardInterrupt = False"
| "is_Exception _ = True"

text \<open>
  Text is a \<open>string\<close>. An Isabelle character stands for the Unicode code point of the
  same number, so the model covers text whose code points are below 256; on these the
  whitespace of \<^verbatim>\<open>str.strip()\<close> and the literals \<^verbatim>\<open>int()\<close> accepts are exactly the
  ones defined below.
\<close>

definition LF :: char where
  "LF = CHR 0x0A"

definition CR :: char where
  "CR = CHR 0x0D"

definition py_isspace :: "char \<Rightarrow> bool" where
  "py_isspace c \<longleftrightarrow> c \<in> set [CHR 0x09, CHR 0x0A, CHR 0x0B, CHR 0x0C, CHR 0x0D,
     CHR 0x1C, CHR 0x1D, CHR 0x1E, CHR 0x1F, CHR 0x20, CHR 0x85, CHR 0xA0]"

text \<open>\<^verbatim>\<open>s.strip()\<close> and \<^verbatim>\<open>s.strip(chars)\<close>: drop from both ends while the predicate holds.\<close>

definition strip_while :: "(char \<Rightarrow> bool) \<Rightarrow> string \<Rightarrow> string" where
  "strip_while P s = rev (dropWhile P (rev (dropWhile P s)))"

definition py_strip :: "string \<Rightarrow> string" where
  "py_strip s = strip_while py_isspace s"

definition py_strip_chars :: "string \<Rightarrow> string \<Rightarrow> string" where
  "py_strip_chars chars s = strip_while (\<lambda>c. c \<in> set chars) s"

definition py_startswith :: "string \<Rightarrow> string \<Rightarrow> bool" where
  "py_startswith pre s \<longleftrightarrow> take (length pre) s = pre"

definition py_endswith :: "string \<Rightarrow> string \<Rightarrow> bool" where
  "py_endswith suf s \<longleftrightarrow> length suf \<le> length s \<and> drop (length s - length suf) s = suf"

text \<open>\<^verbatim>\<open>s.split(sep)\<close> for a separator of one character: never the empty list.\<close>

fun py_split :: "char \<Rightarrow> string \<Rightarrow> string list" where
  "py_split sep [] = [[]]"
| "py_split sep (c # cs) =
     (if c = sep then [] # py_split sep cs
      else (case py_split sep cs of
              [] \<Rightarrow> [[c]]
            | x # xs \<Rightarrow> (c # x) # xs))"

text \<open>\<^verbatim>\<open>xs[i]\<close> for \<open>i \<ge> 0\<close>: out of range raises \<^verbatim>\<open>IndexError\<close>.\<close>

definition py_index :: "'a list \<Rightarrow> nat \<Rightarrow> exn + 'a" where
  "py_index xs i = (if i < length xs then Inr (xs ! i) else Inl IndexError)"

subsection \<open>\<^verbatim>\<open>int()\<close>\<close>

text \<open>
  \<^verbatim>\<open>int(s)\<close> for a string, base ten: whitespace around the literal is skipped (the
  six ASCII blanks, and the code points 0x85 and 0xA0, which CPython turns into a
  blank first), then an optional sign, then decimal digits, where single underscores
  may stand between two digits. Anything else raises \<^verbatim>\<open>ValueError\<close>, and so does a
  literal of more than 4300 digits (the interpreter's default limit since
  Python 3.11).
\<close>

definition int_space :: "char \<Rightarrow> bool" where
  "int_space c \<longleftrightarrow> c \<in> set [CHR 0x09, CHR 0x0A, CHR 0x0B, CHR 0x0C, CHR 0x0D,
     CHR 0x20, CHR 0x85, CHR 0xA0]"

definition digit_val :: "char \<Rightarrow> int option" where
  "digit_val c =
     (if 48 \<le> (of_char c :: nat) \<and> (of_char c :: nat) \<le> 57
      then Some (int (of_char c) - 48) else None)"

fun parse_digits :: "int \<Rightarrow> string \<Rightarrow> int option" where
  "parse_digits acc [] = Some acc"
| "parse_digits acc [c] =
     (case digit_val c of None \<Rightarrow> None | Some v \<Rightarrow> Some (10 * acc + v))"
| "parse_digits acc (c # d # cs) =
     (if c = CHR ''_'' then
        (case digit_val d of None \<Rightarrow> None | Some v \<Rightarrow> parse_digits (10 * acc + v) cs)
      else
        (case digit_val c of None \<Rightarrow> None | Some v \<Rightarrow> parse_digits (10 * acc + v) (d # cs)))"

definition max_str_digits :: nat where
  "max_str_digits = 4300"

definition parse_unsigned :: "string \<Rightarrow> exn + int" where
  "parse_unsigned body =
     (case body of
        [] \<Rightarrow> Inl ValueError
      | b # bs \<Rightarrow>
          (case digit_val b of
             None \<Rightarrow> Inl ValueError
           | Some v \<Rightarrow>
               (case parse_digits v bs of
                  None \<Rightarrow> Inl ValueError
                | Some n \<Rightarrow>
                    if max_str_digits < length (filter (\<lambda>c. c \<noteq> CHR ''_'') body)
                    then Inl ValueError else Inr n)))"

definition py_int_str :: "string \<Rightarrow> exn + int" where
  "py_int_str s =
     (case strip_while int_space s of
        [] \<Rightarrow> Inl ValueError
      | c # cs \<Rightarrow>
          if c = CHR ''-'' then
            (case parse_unsigned cs of Inl e \<Rightarrow> Inl e | Inr n \<Rightarrow> Inr (- n))
          else if c = CHR ''+'' then parse_unsigned cs
          else parse_unsigned (c # cs))"

section \<open>The file system and the console\<close>

type_synonym path = string

text \<open>
  A file has the text that decoding its bytes as UTF-8 with \<^verbatim>\<open>errors='ignore'\<close> gives
  (both read passes of the extraction functions decode that way), a modification time,
  and three answers of the operating system: whether \<^verbatim>\<open>os.path.getmtime\<close>, opening
  for reading and \<^verbatim>\<open>os.remove\<close> are permitted.
\<close>

record file_node =
  content :: string
  mtime :: real
  statable :: bool
  readable :: bool
  removable :: bool

text \<open>What the program prints through \<^verbatim>\<open>log\<close>, and the calls by which it changes files.\<close>

datatype event =
    LogTagWarning exn
  | LogBackupCreated string
  | LogCleanedUp string int
  | LogWatching
  | LogReturningToMenu
  | LogGoodbye
  | CallRemove path
  | CallCopy2 path path

text \<open>
  How a copy to a path fails, when it does. Either the destination cannot be opened
  for writing (missing directory, permission) and nothing changes, or the
  destination has been created or truncated and the copy raises later (full disk in
  the middle of the write, the source vanishing, the metadata refused after a
  complete copy); then the destination is left with what had been written.
\<close>

datatype copy_failure =
    CannotOpen exn
  | Interrupted exn file_node

text \<open>
  The world: the files by path string, the answer of \<^verbatim>\<open>os.listdir\<close> for a path (the
  names in the order of the scan; \<open>None\<close> where the call fails), the failure, if any,
  that a copy to a path meets, and the trace of events so far, oldest first.
\<close>

record world =
  files :: "path \<rightharpoonup> file_node"
  dirs :: "path \<rightharpoonup> string list"
  write_error :: "path \<Rightarrow> copy_failure option"
  trace :: "event list"

definition log :: "event \<Rightarrow> world \<Rightarrow> world" where
  "log ev w = w\<lparr>trace := trace w @ [ev]\<rparr>"

definition os_getmtime :: "world \<Rightarrow> path \<Rightarrow> exn + real" where
  "os_getmtime w p =
     (case files w p of
        None \<Rightarrow> Inl FileNotFoundError
      | Some f \<Rightarrow> if statable f then Inr (mtime f) else Inl PermissionError)"

definition os_open :: "world \<Rightarrow> path \<Rightarrow> exn + string" where
  "os_open w p =
     (case files w p of
        None \<Rightarrow> Inl FileNotFoundError
      | Some f \<Rightarrow> if readable f then Inr (content f) else Inl PermissionError)"

definition os_listdir :: "world \<Rightarrow> path \<Rightarrow> exn + string list" where
  "os_listdir w p = (case dirs w p of None \<Rightarrow> Inl FileNotFoundError | Some ns \<Rightarrow> Inr ns)"

text \<open>\<^verbatim>\<open>os.path.join(a, b)\<close> as \<^verbatim>\<open>posixpath\<close> defines it.\<close>

definition path_join :: "path \<Rightarrow> string \<Rightarrow> path" where
  "path_join a b =
     (if py_startswith ''/'' b then b
      else if a = [] \<or> py_endswith ''/'' a then a @ b
      else a @ ''/'' @ b)"

text \<open>
  The listings follow the files. The name under which the directory \<open>d\<close> lists the
  path \<open>p\<close>, when \<open>p\<close> lies directly in \<open>d\<close>; a removed path leaves every listing, and
  a created one enters the listing of its directory, at the end if it is new there.
\<close>

definition entry_name :: "path \<Rightarrow> path \<Rightarrow> string option" where
  "entry_name d p =
     (let pre = (if d = [] \<or> py_endswith ''/'' d then d else d @ ''/'');
          n = drop (length pre) p
      in if py_startswith pre p \<and> n \<noteq> [] \<and> CHR ''/'' \<notin> set n then Some n else None)"

definition forget_entry :: "path \<Rightarrow> (path \<rightharpoonup> string list) \<Rightarrow> (path \<rightharpoonup> string list)" where
  "forget_entry p ds = (\<lambda>d. map_option (filter (\<lambda>n. path_join d n \<noteq> p)) (ds d))"

definition add_entry :: "path \<Rightarrow> (path \<rightharpoonup> string list) \<Rightarrow> (path \<rightharpoonup> string list)" where
  "add_entry p ds =
     (\<lambda>d. case ds d of
             None \<Rightarrow> None
           | Some ns \<Rightarrow>
               (case entry_name d p of
                  None \<Rightarrow> Some ns
                | Some n \<Rightarrow> if n \<in> set ns then Some ns else Some (ns @ [n])))"

text \<open>\<^verbatim>\<open>os.remove\<close>: the call is recorded, then the file is gone or the call raises.\<close>

definition os_remove :: "world \<Rightarrow> path \<Rightarrow> (exn + unit) \<times> world" where
  "os_remove w p =
     (let w1 = log (CallRemove p) w in
      case files w p of
        None \<Rightarrow> (Inl FileNotFoundError, w1)
      | Some f \<Rightarrow>
          if removable f
          then (Inr (), w1\<lparr>files := (files w1)(p := None), dirs := forget_entry p (dirs w1)\<rparr>)
          else (Inl PermissionError, w1))"

text \<open>
  \<^verbatim>\<open>shutil.copy2(src, dst)\<close>: the destination gets the content, the modification time
  and the permissions of the source. A copy that cannot open its destination changes
  nothing; one that raises later leaves the destination with what the failure
  says.
\<close>

definition shutil_copy2 :: "world \<Rightarrow> path \<Rightarrow> path \<Rightarrow> (exn + unit) \<times> world" where
  "shutil_copy2 w src dst =
     (let w1 = log (CallCopy2 src dst) w in
      case files w src of
        None \<Rightarrow> (Inl FileNotFoundError, w1)
      | Some f \<Rightarrow>
          if \<not> readable f then (Inl PermissionError, w1)
          else if src = dst then (Inl OSError, w1)
          else (case write_error w dst of
                  Some (CannotOpen e) \<Rightarrow> (Inl e, w1)
                | Some (Interrupted e partial) \<Rightarrow>
                    (Inl e, w1\<lparr>files := (files w1)(dst \<mapsto> partial),
                               dirs := add_entry dst (dirs w1)\<rparr>)
                | None \<Rightarrow>
                    (Inr (), w1\<lparr>files := (files w1)(dst \<mapsto> f),
                               dirs := add_entry dst (dirs w1)\<rparr>)))"

section \<open>Metadata extraction\<close>

text \<open>
  A text file opened with \<^verbatim>\<open>open(path, 'r')\<close> translates the line ends
  \<^verbatim>\<open>\r\n\<close> and \<^verbatim>\<open>\r\<close> to \<^verbatim>\<open>\n\<close>, and iterating over it gives the lines with
  their \<^verbatim>\<open>\n\<close> kept.
\<close>

fun universal_newlines :: "string \<Rightarrow> string" where
  "universal_newlines [] = []"
| "universal_newlines [c] = (if c = CR then [LF] else [c])"
| "universal_newlines (c # d # cs) =
     (if c = CR \<and> d = LF then LF # universal_newlines cs
      else if c = CR then LF # universal_newlines (d # cs)
      else c # universal_newlines (d # cs))"

fun file_lines :: "string \<Rightarrow> string list" where
  "file_lines [] = []"
| "file_lines (c # cs) =
     (if c = LF then [LF] # file_lines cs
      else (case file_lines cs of
              [] \<Rightarrow> [[c]]
            | l # ls \<Rightarrow> (c # l) # ls))"

text \<open>The two ways the source opens a save file: binary and decoded, or as text.\<close>

definition read_binary_lines :: "world \<Rightarrow> path \<Rightarrow> exn + string list" where
  "read_binary_lines w p =
     (case os_open w p of Inl e \<Rightarrow> Inl e | Inr text_content \<Rightarrow> Inr (py_split LF text_content))"

definition read_text_lines :: "world \<Rightarrow> path \<Rightarrow> exn + string list" where
  "read_text_lines w p =
     (case os_open w p of
        Inl e \<Rightarrow> Inl e
      | Inr text_content \<Rightarrow> Inr (file_lines (universal_newlines text_content)))"

text \<open>\<^verbatim>\<open>line.split('=')[1].strip().strip('"')\<close>\<close>

definition field_of_line :: "string \<Rightarrow> exn + string" where
  "field_of_line line =
     (case py_index (py_split CHR ''='' line) 1 of
        Inl e \<Rightarrow> Inl e
      | Inr seg \<Rightarrow> Inr (py_strip_chars [CHR 0x22] (py_strip seg)))"

text \<open>\<^verbatim>\<open>int(date_str.split('.')[0])\<close> on the field of a line.\<close>

definition year_of_line :: "string \<Rightarrow> exn + int" where
  "year_of_line line =
     (case field_of_line line of
        Inl e \<Rightarrow> Inl e
      | Inr date_str \<Rightarrow>
          (case py_index (py_split CHR ''.'' date_str) 0 of
             Inl e \<Rightarrow> Inl e
           | Inr y \<Rightarrow> py_int_str y))"

subsection \<open>\<^verbatim>\<open>get_player_tag\<close>\<close>

text \<open>
  The loops of \<^verbatim>\<open>get_player_tag\<close>. \<open>None\<close> means the loop ran to its end without
  a \<^verbatim>\<open>return\<close>. The first pass tests the stripped line, the second the line as read.
\<close>

fun tag_loop :: "(string \<Rightarrow> bool) \<Rightarrow> string list \<Rightarrow> exn + string option" where
  "tag_loop is_player [] = Inr None"
| "tag_loop is_player (line # rest) =
     (if is_player line then
        (case field_of_line line of
           Inl e \<Rightarrow> Inl e
         | Inr tag \<Rightarrow> if tag \<noteq> [] \<and> tag \<noteq> ''---'' then Inr (Some tag)
                     else tag_loop is_player rest)
      else tag_loop is_player rest)"

text \<open>The body of the \<^verbatim>\<open>try\<close> block: \<open>Inr None\<close> when it falls through to the last line.\<close>

definition get_player_tag_try :: "world \<Rightarrow> path \<Rightarrow> exn + string option" where
  "get_player_tag_try w save_path =
     (case read_binary_lines w save_path of
        Inl e \<Rightarrow> Inl e
      | Inr ls \<Rightarrow>
          (case tag_loop (\<lambda>line. py_startswith ''player='' (py_strip line)) ls of
             Inl e \<Rightarrow> Inl e
           | Inr (Some tag) \<Rightarrow> Inr (Some tag)
           | Inr None \<Rightarrow>
               (case read_text_lines w save_path of
                  Inl e \<Rightarrow> Inl e
                | Inr ls2 \<Rightarrow> tag_loop (\<lambda>line. py_startswith ''player='' line) ls2)))"

definition get_player_tag :: "world \<Rightarrow> path \<Rightarrow> (exn + string) \<times> world" where
  "get_player_tag w save_path =
     (case get_player_tag_try w save_path of
        Inr (Some tag) \<Rightarrow> (Inr tag, w)
      | Inr None \<Rightarrow> (Inr ''UNKNOWN'', w)
      | Inl e \<Rightarrow>
          if is_Exception e then (Inr ''UNKNOWN'', log (LogTagWarning e) w)
          else (Inl e, w))"

subsection \<open>\<^verbatim>\<open>get_save_year\<close> and \<^verbatim>\<open>get_backup_year\<close>\<close>

fun year_loop :: "(string \<Rightarrow> bool) \<Rightarrow> string list \<Rightarrow> exn + int option" where
  "year_loop is_date [] = Inr None"
| "year_loop is_date (line # rest) =
     (if is_date line then
        (case year_of_line line of Inl e \<Rightarrow> Inl e | Inr year \<Rightarrow> Inr (Some year))
      else year_loop is_date rest)"

definition get_save_year_try :: "world \<Rightarrow> path \<Rightarrow> exn + int option" where
  "get_save_year_try w save_path =
     (case read_binary_lines w save_path of
        Inl e \<Rightarrow> Inl e
      | Inr ls \<Rightarrow>
          (case year_loop (\<lambda>line. py_startswith ''date='' (py_strip line)) ls of
             Inl e \<Rightarrow> Inl e
           | Inr (Some year) \<Rightarrow> Inr (Some year)
           | Inr None \<Rightarrow>
               (case read_text_lines w save_path of
                  Inl e \<Rightarrow> Inl e
                | Inr ls2 \<Rightarrow> year_loop (\<lambda>line. py_startswith ''date='' line) ls2)))"

definition get_save_year :: "world \<Rightarrow> path \<Rightarrow> exn + int option" where
  "get_save_year w save_path =
     (case get_save_year_try w save_path of
        Inr r \<Rightarrow> Inr r
      | Inl e \<Rightarrow> if is_Exception e then Inr None else Inl e)"

text \<open>\<^verbatim>\<open>get_backup_year\<close> has the same body as \<^verbatim>\<open>get_save_year\<close>, line by line.\<close>

definition get_backup_year :: "world \<Rightarrow> path \<Rightarrow> exn + int option" where
  "get_backup_year w filename =
     (case get_save_year_try w filename of
        Inr r \<Rightarrow> Inr r
      | Inl e \<Rightarrow> if is_Exception e then Inr None else Inl e)"

section \<open>Pruning: \<^verbatim>\<open>cleanup_old_backups\<close>\<close>

text \<open>
  The retention setting comes from the JSON settings file or from the menu, so it is
  any value \<^verbatim>\<open>json.load\<close> can give: \<^verbatim>\<open>None\<close>, a boolean, an integer, a float
  (\<^verbatim>\<open>json.load\<close> reads \<^verbatim>\<open>Infinity\<close> and \<^verbatim>\<open>NaN\<close> too), a string, a list or a dictionary.
\<close>

datatype pyfloat = Finite real | Infinity | NaN

datatype pyval =
    PyNone
  | PyBool bool
  | PyInt int
  | PyFloat pyfloat
  | PyStr string
  | PyList
  | PyDict

text \<open>\<^verbatim>\<open>int(v)\<close>: a finite float is truncated towards zero.\<close>

fun py_int :: "pyval \<Rightarrow> exn + int" where
  "py_int PyNone = Inl TypeError"
| "py_int (PyBool b) = Inr (if b then 1 else 0)"
| "py_int (PyInt n) = Inr n"
| "py_int (PyFloat (Finite r)) = Inr (if r < 0 then \<lceil>r\<rceil> else \<lfloor>r\<rfloor>)"
| "py_int (PyFloat Infinity) = Inl OverflowError"
| "py_int (PyFloat NaN) = Inl ValueError"
| "py_int (PyStr s) = py_int_str s"
| "py_int PyList = Inl TypeError"
| "py_int PyDict = Inl TypeError"

text \<open>
  The inner \<^verbatim>\<open>try\<close> of the loop: \<^verbatim>\<open>os.remove\<close>, then the log line; \<^verbatim>\<open>except Exception: pass\<close>.
\<close>

definition remove_backup :: "string \<Rightarrow> int \<Rightarrow> path \<Rightarrow> world \<Rightarrow> (exn + unit) \<times> world" where
  "remove_backup fname backup_year fpath w =
     (case os_remove w fpath of
        (Inr u, w1) \<Rightarrow> (Inr (), log (LogCleanedUp fname backup_year) w1)
      | (Inl e, w1) \<Rightarrow> if is_Exception e then (Inr (), w1) else (Inl e, w1))"

text \<open>The body of the \<^verbatim>\<open>for\<close> loop, for one name of the listing.\<close>

definition cleanup_entry :: "path \<Rightarrow> int \<Rightarrow> int \<Rightarrow> string \<Rightarrow> world \<Rightarrow> (exn + unit) \<times> world" where
  "cleanup_entry backup_dir current_year keep_years fname w =
     (if py_endswith ''.eu4'' fname then
        (let fpath = path_join backup_dir fname in
         case get_backup_year w fpath of
           Inl e \<Rightarrow> (Inl e, w)
         | Inr None \<Rightarrow> (Inr (), w)
         | Inr (Some backup_year) \<Rightarrow>
             if backup_year < current_year - keep_years
             then remove_backup fname backup_year fpath w
             else (Inr (), w))
      else (Inr (), w))"

fun cleanup_loop :: "path \<Rightarrow> int \<Rightarrow> int \<Rightarrow> string list \<Rightarrow> world \<Rightarrow> (exn + unit) \<times> world" where
  "cleanup_loop backup_dir current_year keep_years [] w = (Inr (), w)"
| "cleanup_loop backup_dir current_year keep_years (fname # rest) w =
     (case cleanup_entry backup_dir current_year keep_years fname w of
        (Inl e, w1) \<Rightarrow> (Inl e, w1)
      | (Inr u, w1) \<Rightarrow> cleanup_loop backup_dir current_year keep_years rest w1)"

definition cleanup_old_backups :: "world \<Rightarrow> path \<Rightarrow> int \<Rightarrow> pyval \<Rightarrow> (exn + unit) \<times> world" where
  "cleanup_old_backups w backup_dir current_year keep_years =
     (if keep_years = PyStr ''all'' then (Inr (), w)
      else
        (case py_int keep_years of
           Inl e \<Rightarrow> if e = TypeError \<or> e = ValueError then (Inr (), w) else (Inl e, w)
         | Inr ky \<Rightarrow>
             (case os_listdir w backup_dir of
                Inl e \<Rightarrow> (Inl e, w)
              | Inr names \<Rightarrow> cleanup_loop backup_dir current_year ky names w)))"

section \<open>The monitoring loop\<close>

text \<open>
  \<^verbatim>\<open>time.strftime('%Y-%m-%d_%H-%M-%S')\<close> formats the local time: the year in decimal,
  the other five fields with two digits.
\<close>

record struct_time =
  tm_year :: nat
  tm_mon :: nat
  tm_mday :: nat
  tm_hour :: nat
  tm_min :: nat
  tm_sec :: nat

definition digit_char :: "nat \<Rightarrow> char" where
  "digit_char n = char_of (48 + n mod 10)"

fun decimal :: "nat \<Rightarrow> string" where
  "decimal n = (if n < 10 then [digit_char n] else decimal (n div 10) @ [digit_char n])"

declare decimal.simps [simp del]

definition two_digits :: "nat \<Rightarrow> string" where
  "two_digits n = (if n < 10 then CHR ''0'' # decimal n else decimal n)"

definition strftime :: "struct_time \<Rightarrow> string" where
  "strftime t =
     decimal (tm_year t) @ ''-'' @ two_digits (tm_mon t) @ ''-'' @ two_digits (tm_mday t)
       @ ''_'' @ two_digits (tm_hour t) @ ''-'' @ two_digits (tm_min t)
       @ ''-'' @ two_digits (tm_sec t)"

text \<open>
  The variables of the loop. \<open>interval\<close> and \<open>keep_years\<close> are the values read from the
  settings; a float is the real number it denotes.
\<close>

record monitor =
  SOURCE :: path
  BACKUP_DIR :: path
  interval :: real
  keep_years :: pyval
  heartbeat :: nat
  last_mtime :: "real option"

text \<open>
  What one pass of the loop meets from outside: whether Ctrl+C arrives during
  \<^verbatim>\<open>time.sleep(1)\<close>, what \<^verbatim>\<open>check_for_quit()\<close> answers, and the local time.
\<close>

record tick_input =
  ctrl_c :: bool
  ctrl_q :: bool
  localtime :: struct_time

datatype loop_state =
    Watching monitor world
  | PausedForMenu monitor world
  | Crashed exn world
  | Goodbye world

definition get_mtime :: "world \<Rightarrow> path \<Rightarrow> exn + real option" where
  "get_mtime w p =
     (case os_getmtime w p of
        Inr t \<Rightarrow> Inr (Some t)
      | Inl e \<Rightarrow> if e = FileNotFoundError then Inr None else Inl e)"

text \<open>
  \<^verbatim>\<open>heartbeat % interval == 0\<close>. Python's float remainder is exact, so the test holds
  exactly when the heartbeat is a whole multiple of the interval.
\<close>

definition is_multiple :: "nat \<Rightarrow> real \<Rightarrow> exn + bool" where
  "is_multiple h i =
     (if i = 0 then Inl ZeroDivisionError
      else Inr (of_int \<lfloor>real h / i\<rfloor> * i = real h))"

text \<open>The only handler around the loop is \<^verbatim>\<open>except KeyboardInterrupt\<close>.\<close>

definition loop_except :: "exn \<Rightarrow> world \<Rightarrow> loop_state" where
  "loop_except e w = (if e = KeyboardInterrupt then Goodbye (log LogGoodbye w) else Crashed e w)"

definition backup_name_of :: "string \<Rightarrow> string \<Rightarrow> string" where
  "backup_name_of tag timestamp = ''mp_autosave_'' @ tag @ ''_'' @ timestamp @ ''.eu4''"

text \<open>
  The statements under \<^verbatim>\<open>if current_mtime and current_mtime != last_mtime\<close>, in two
  parts. First the backup is written: the tag, the timestamp, the name, the path, the
  copy and the log line. The result is the name of the backup.
\<close>

definition write_backup :: "struct_time \<Rightarrow> monitor \<Rightarrow> world \<Rightarrow> (exn + string) \<times> world" where
  "write_backup t m w =
     (case get_player_tag w (SOURCE m) of
        (Inl e, w1) \<Rightarrow> (Inl e, w1)
      | (Inr tag, w1) \<Rightarrow>
          (let timestamp = strftime t;
               backup_name = backup_name_of tag timestamp;
               backup_path = path_join (BACKUP_DIR m) backup_name
           in case shutil_copy2 w1 (SOURCE m) backup_path of
                (Inl e, w2) \<Rightarrow> (Inl e, w2)
              | (Inr u, w2) \<Rightarrow> (Inr backup_name, log (LogBackupCreated backup_name) w2)))"

text \<open>Then the old backups are pruned and \<^verbatim>\<open>last_mtime\<close> is updated.\<close>

definition make_backup :: "struct_time \<Rightarrow> real option \<Rightarrow> monitor \<Rightarrow> world \<Rightarrow> loop_state" where
  "make_backup t current_mtime m w =
     (case write_backup t m w of
        (Inl e, w2) \<Rightarrow> loop_except e w2
      | (Inr backup_name, w3) \<Rightarrow>
          (case get_save_year w3 (SOURCE m) of
             Inl e \<Rightarrow> loop_except e w3
           | Inr None \<Rightarrow> Watching (m\<lparr>last_mtime := current_mtime\<rparr>) w3
           | Inr (Some current_year) \<Rightarrow>
               (case cleanup_old_backups w3 (BACKUP_DIR m) current_year (keep_years m) of
                  (Inl e, w4) \<Rightarrow> loop_except e w4
                | (Inr u, w4) \<Rightarrow> Watching (m\<lparr>last_mtime := current_mtime\<rparr>) w4)))"

text \<open>The statements under \<^verbatim>\<open>if heartbeat % interval == 0\<close>: the change check.\<close>

definition change_check :: "struct_time \<Rightarrow> monitor \<Rightarrow> world \<Rightarrow> loop_state" where
  "change_check t m w =
     (case get_mtime w (SOURCE m) of
        Inl e \<Rightarrow> loop_except e w
      | Inr current_mtime \<Rightarrow>
          (let w1 = (if heartbeat m mod 10 = 0 then log LogWatching w else w) in
           if current_mtime \<noteq> None \<and> current_mtime \<noteq> Some 0 \<and> current_mtime \<noteq> last_mtime m
           then make_backup t current_mtime m w1
           else Watching m w1))"

text \<open>
  One pass of \<^verbatim>\<open>while True\<close>. After Ctrl+Q the settings menu takes over; it is not part
  of the model, so the pass ends in \<open>PausedForMenu\<close>.
\<close>

definition tick :: "tick_input \<Rightarrow> monitor \<Rightarrow> world \<Rightarrow> loop_state" where
  "tick i m w =
     (if ctrl_c i then loop_except KeyboardInterrupt w
      else
        (let m1 = m\<lparr>heartbeat := heartbeat m + 1\<rparr> in
         if ctrl_q i then PausedForMenu m1 (log LogReturningToMenu w)
         else
           (case is_multiple (heartbeat m1) (interval m1) of
              Inl e \<Rightarrow> loop_except e w
            | Inr False \<Rightarrow> Watching m1 w
            | Inr True \<Rightarrow> change_check (localtime i) m1 w)))"

text \<open>What can be observed of a state of the loop.\<close>

fun is_Watching :: "loop_state \<Rightarrow> bool" where
  "is_Watching (Watching m w) = True"
| "is_Watching _ = False"

fun crash_of :: "loop_state \<Rightarrow> exn option" where
  "crash_of (Crashed e w) = Some e"
| "crash_of _ = None"

fun world_of :: "loop_state \<Rightarrow> world" where
  "world_of (Watching m w) = w"
| "world_of (PausedForMenu m w) = w"
| "world_of (Crashed e w) = w"
| "world_of (Goodbye w) = w"

text \<open>The loop over the passes: only a watching loop takes the next pass.\<close>

fun run :: "tick_input list \<Rightarrow> loop_state \<Rightarrow> loop_state" where
  "run [] s = s"
| "run (i # is) (Watching m w) = run is (tick i m w)"
| "run (i # is) s = s"

section \<open>Notions used to state the properties\<close>

text \<open>
  The part of a line between its first and its second \<^verbatim>\<open>=\<close> (to the end of the line
  when there is no second one), and the value \<^verbatim>\<open>line.split('=')[1].strip().strip('"')\<close>
  read from it.
\<close>

definition second_field :: "string \<Rightarrow> string" where
  "second_field line =
     takeWhile (\<lambda>c. c \<noteq> CHR ''='') (drop 1 (dropWhile (\<lambda>c. c \<noteq> CHR ''='') line))"

definition tag_value :: "string \<Rightarrow> string" where
  "tag_value line = py_strip_chars [CHR 0x22] (py_strip (second_field line))"

definition usable_tag :: "string \<Rightarrow> bool" where
  "usable_tag tag \<longleftrightarrow> tag \<noteq> [] \<and> tag \<noteq> ''---''"

text \<open>
  The player tag as the specification words it: the first line whose trimmed form
  starts with \<^verbatim>\<open>player=\<close> decides, and no line after it is read; the value is what
  follows the first \<^verbatim>\<open>=\<close>, trimmed of whitespace and of quotes; the value \<^verbatim>\<open>---\<close>
  means that no player is set.
\<close>

definition spec_player_tag :: "string \<Rightarrow> string option" where
  "spec_player_tag text_content =
     (case find (\<lambda>line. py_startswith ''player='' (py_strip line)) (py_split LF text_content) of
        None \<Rightarrow> None
      | Some line \<Rightarrow>
          (let v = py_strip_chars [CHR 0x22]
                     (py_strip (drop 1 (dropWhile (\<lambda>c. c \<noteq> CHR ''='') line)))
           in if v = ''---'' then None else Some v))"

section \<open>Example worlds\<close>

text \<open>Concrete files and worlds on which the theorems below are instantiated.\<close>

definition save_file :: "string \<Rightarrow> file_node" where
  "save_file t = \<lparr>content = t, mtime = 100, statable = True, readable = True, removable = True\<rparr>"

definition example_world :: world where
  "example_world =
     \<lparr>files = [''/saves/mp_autosave.eu4'' \<mapsto>
                 save_file (''date=1523.4.12'' @ [LF] @ ''player=\"SWE\"'' @ [LF])],
      dirs = [''/saves/backups'' \<mapsto> []],
      write_error = (\<lambda>p. None),
      trace = []\<rparr>"

definition backup_world :: world where
  "backup_world =
     \<lparr>files = [''/bk/mp_autosave_SWE_a.eu4'' \<mapsto> save_file (''date=1500.1.1'' @ [LF]),
               ''/bk/mp_autosave_SWE_b.eu4'' \<mapsto>
                  (save_file (''date=1510.1.1'' @ [LF]))\<lparr>removable := False\<rparr>,
               ''/bk/mp_autosave_SWE_c.eu4'' \<mapsto> save_file (''date=1522.1.1'' @ [LF]),
               ''/bk/mp_autosave_SWE_d.eu4'' \<mapsto> save_file (''binary'' @ [LF]),
               ''/bk/notes.txt'' \<mapsto> save_file (''date=1400.1.1'' @ [LF])],
      dirs = [''/bk'' \<mapsto> [''mp_autosave_SWE_b.eu4'', ''mp_autosave_SWE_a.eu4'',
                ''mp_autosave_SWE_c.eu4'', ''mp_autosave_SWE_d.eu4'', ''notes.txt'']],
      write_error = (\<lambda>p. None),
      trace = []\<rparr>"

text \<open>
  The shape \<^verbatim>\<open>YYYY-MM-DD_HH-MM-SS\<close> the specification gives for the timestamp of a
  backup name, as a predicate on strings.
\<close>

definition is_digit :: "char \<Rightarrow> bool" where
  "is_digit c \<longleftrightarrow> digit_val c \<noteq> None"

text \<open>The characters of an integer literal, the whitespace around it apart.\<close>

definition int_char :: "char \<Rightarrow> bool" where
  "int_char c \<longleftrightarrow> is_digit c \<or> c = CHR ''_'' \<or> c = CHR ''+'' \<or> c = CHR ''-''"






definition example_monitor :: monitor where
  "example_monitor =
     \<lparr>SOURCE = ''/saves/mp_autosave.eu4'', BACKUP_DIR = ''/saves/backups'', interval = 5,
      keep_years = PyInt 10, heartbeat = 4, last_mtime = Some 100\<rparr>"

definition example_input :: tick_input where
  "example_input =
     \<lparr>ctrl_c = False, ctrl_q = False,
      localtime = \<lparr>tm_year = 2024, tm_mon = 3, tm_mday = 9, tm_hour = 21, tm_min = 5, tm_sec = 7\<rparr>\<rparr>"

definition changed_monitor :: monitor where
  "changed_monitor = example_monitor\<lparr>last_mtime := Some 99\<rparr>"

definition full_disk_world :: world where
  "full_disk_world =
     example_world\<lparr>write_error := (\<lambda>p. Some (Interrupted OSError (save_file [])))\<rparr>"

definition noisy_world :: world where
  "noisy_world =
     \<lparr>files = [''/saves/two_players.eu4'' \<mapsto>
                 save_file (''player=\"---\"'' @ [LF] @ ''player=\"SWE\"'' @ [LF]),
               ''/saves/bad_first_date.eu4'' \<mapsto>
                 save_file (''date=abc'' @ [LF] @ ''date=1500.1.1'' @ [LF]),
               ''/saves/noise.eu4'' \<mapsto>
                 save_file ([CHR 0x00, CHR 0xFF, CHR 0x01] @ [LF] @ ''  date=1444.11.11''
                   @ [CR, LF] @ [CHR 0x02, CHR 0xFE] @ ''date=9.9.9'')],
      dirs = Map.empty,
      write_error = (\<lambda>p. None),
      trace = []\<rparr>"

section \<open>Properties\<close>

subsection \<open>Which exceptions the parts raise\<close>

lemma py_split_not_Nil: "py_split sep s \<noteq> []"
  by (induction s) (auto split: list.splits)

lemma parse_unsigned_raises: "parse_unsigned s = Inl e \<Longrightarrow> e = ValueError"
  by (auto simp: parse_unsigned_def split: list.splits option.splits if_splits)

lemma py_int_str_raises: "py_int_str s = Inl e \<Longrightarrow> e = ValueError"
  by (auto simp: py_int_str_def split: list.splits if_splits sum.splits dest: parse_unsigned_raises)

lemma py_index_raises: "py_index xs i = Inl e \<Longrightarrow> e = IndexError"
  by (auto simp: py_index_def split: if_splits)

lemma field_of_line_raises: "field_of_line l = Inl e \<Longrightarrow> e = IndexError"
  by (auto simp: field_of_line_def split: sum.splits dest: py_index_raises)

lemma year_of_line_raises: "year_of_line l = Inl e \<Longrightarrow> e = IndexError \<or> e = ValueError"
  by (auto simp: year_of_line_def split: sum.splits
      dest: py_index_raises py_int_str_raises field_of_line_raises)

lemma os_open_raises: "os_open w p = Inl e \<Longrightarrow> e = FileNotFoundError \<or> e = PermissionError"
  by (auto simp: os_open_def split: option.splits if_splits)

lemma year_loop_raises: "year_loop P ls = Inl e \<Longrightarrow> e = IndexError \<or> e = ValueError"
  by (induction ls) (auto split: if_splits sum.splits dest: year_of_line_raises)

lemma tag_loop_raises: "tag_loop P ls = Inl e \<Longrightarrow> e = IndexError"
  by (induction ls) (auto split: if_splits sum.splits dest: field_of_line_raises)

lemma get_save_year_try_raises: "get_save_year_try w p = Inl e \<Longrightarrow> is_Exception e"
  by (auto simp: get_save_year_try_def read_binary_lines_def read_text_lines_def
      split: sum.splits option.splits dest!: os_open_raises year_loop_raises)

lemma get_player_tag_try_raises: "get_player_tag_try w p = Inl e \<Longrightarrow> is_Exception e"
  by (auto simp: get_player_tag_try_def read_binary_lines_def read_text_lines_def
      split: sum.splits option.splits dest!: os_open_raises tag_loop_raises)

lemma get_save_year_returns: "\<exists>r. get_save_year w p = Inr r"
  by (auto simp: get_save_year_def split: sum.splits dest: get_save_year_try_raises)

lemma get_backup_year_returns: "\<exists>r. get_backup_year w p = Inr r"
  by (auto simp: get_backup_year_def split: sum.splits dest: get_save_year_try_raises)

lemma get_player_tag_returns: "\<exists>tag w'. get_player_tag w p = (Inr tag, w')"
  by (auto simp: get_player_tag_def split: sum.splits option.splits dest: get_player_tag_try_raises)

text \<open>
  Claim C6. Metadata extraction never raises, whatever the path holds:
  \<^verbatim>\<open>get_player_tag\<close> and \<^verbatim>\<open>get_save_year\<close> always return. When the file is missing
  or unreadable, and whenever anything inside their \<^verbatim>\<open>try\<close> block raises (malformed
  content), the tag is the sentinel \<^verbatim>\<open>UNKNOWN\<close> and the year is absent.
\<close>

theorem extraction_never_raises:
  "(\<exists>tag w'. get_player_tag w p = (Inr tag, w'))
   \<and> (\<exists>year. get_save_year w p = Inr year)
   \<and> (\<forall>e. os_open w p = Inl e \<longrightarrow>
         fst (get_player_tag w p) = Inr ''UNKNOWN'' \<and> get_save_year w p = Inr None)
   \<and> (\<forall>e. get_player_tag_try w p = Inl e \<longrightarrow> fst (get_player_tag w p) = Inr ''UNKNOWN'')
   \<and> (\<forall>e. get_save_year_try w p = Inl e \<longrightarrow> get_save_year w p = Inr None)"
proof (intro conjI allI impI)
  show "\<exists>tag w'. get_player_tag w p = (Inr tag, w')" by (rule get_player_tag_returns)
  show "\<exists>year. get_save_year w p = Inr year" by (rule get_save_year_returns)
next
  fix e assume "os_open w p = Inl e"
  then have "get_player_tag_try w p = Inl e" "get_save_year_try w p = Inl e" "is_Exception e"
    by (auto simp: get_player_tag_try_def get_save_year_try_def read_binary_lines_def
        dest: os_open_raises)
  then show "fst (get_player_tag w p) = Inr ''UNKNOWN''" "get_save_year w p = Inr None"
    by (simp_all add: get_player_tag_def get_save_year_def)
next
  fix e assume "get_player_tag_try w p = Inl e"
  then show "fst (get_player_tag w p) = Inr ''UNKNOWN''"
    using get_player_tag_try_raises[of w p e] by (simp add: get_player_tag_def)
next
  fix e assume "get_save_year_try w p = Inl e"
  then show "get_save_year w p = Inr None"
    using get_save_year_try_raises[of w p e] by (simp add: get_save_year_def)
qed

theorem extraction_never_raises_witness:
  "os_open example_world ''/saves/missing.eu4'' = Inl FileNotFoundError
   \<and> fst (get_player_tag example_world ''/saves/missing.eu4'') = Inr ''UNKNOWN''
   \<and> get_save_year example_world ''/saves/missing.eu4'' = Inr None"
proof -
  have h: "os_open example_world ''/saves/missing.eu4'' = Inl FileNotFoundError"
    by (simp add: os_open_def example_world_def)
  show ?thesis
    using h extraction_never_raises [of example_world "''/saves/missing.eu4''"] by blast
qed

subsection \<open>Pruning\<close>

lemma get_backup_year_files_cong:
  assumes "files w1 p = files w p"
  shows "get_backup_year w1 p = get_backup_year w p"
proof -
  have eq: "os_open w1 p = os_open w p" using assms by (simp add: os_open_def)
  show ?thesis
    unfolding get_backup_year_def get_save_year_try_def read_binary_lines_def
      read_text_lines_def eq by (rule refl)
qed

lemma get_backup_year_missing: "files w p = None \<Longrightarrow> get_backup_year w p = Inr None"
  by (simp add: get_backup_year_def get_save_year_try_def read_binary_lines_def os_open_def)

lemma files_log [simp]: "files (log ev w) = files w"
  by (simp add: log_def)

lemma trace_log [simp]: "trace (log ev w) = trace w @ [ev]"
  by (simp add: log_def)

lemma dirs_log [simp]: "dirs (log ev w) = dirs w"
  by (simp add: log_def)

lemma write_error_log [simp]: "write_error (log ev w) = write_error w"
  by (simp add: log_def)

lemma remove_backup_permitted:
  assumes "files w p = Some f" "removable f"
  shows "remove_backup n y p w =
    (Inr (), log (LogCleanedUp n y)
       ((log (CallRemove p) w)\<lparr>files := (files w)(p := None),
                                 dirs := forget_entry p (dirs w)\<rparr>))"
  using assms by (simp add: remove_backup_def os_remove_def Let_def)

lemma remove_backup_refused:
  assumes "\<not> (\<exists>f. files w p = Some f \<and> removable f)"
  shows "remove_backup n y p w = (Inr (), log (CallRemove p) w)"
proof (cases "files w p")
  case None
  then show ?thesis by (simp add: remove_backup_def os_remove_def Let_def)
next
  case (Some f)
  with assms have "\<not> removable f" by simp
  with Some show ?thesis by (simp add: remove_backup_def os_remove_def Let_def)
qed

text \<open>One name of the listing: either nothing happens or the backup is submitted to removal.\<close>

lemma cleanup_entry_skip:
  assumes "\<not> (py_endswith ''.eu4'' n
         \<and> (\<exists>y. get_backup_year w (path_join d n) = Inr (Some y) \<and> y < cy - ky))"
  shows "cleanup_entry d cy ky n w = (Inr (), w)"
proof (cases "py_endswith ''.eu4'' n")
  case False
  then show ?thesis by (simp add: cleanup_entry_def)
next
  case True
  obtain r where r: "get_backup_year w (path_join d n) = Inr r"
    using get_backup_year_returns by blast
  show ?thesis
  proof (cases r)
    case None
    with True r show ?thesis by (simp add: cleanup_entry_def)
  next
    case (Some y)
    with True r assms have "\<not> y < cy - ky" by simp
    with True r Some show ?thesis by (simp add: cleanup_entry_def)
  qed
qed

lemma cleanup_entry_hit:
  assumes "py_endswith ''.eu4'' n" "get_backup_year w (path_join d n) = Inr (Some y)" "y < cy - ky"
  shows "cleanup_entry d cy ky n w = remove_backup n y (path_join d n) w"
  using assms by (simp add: cleanup_entry_def)

lemma cleanup_entry_cases:
  obtains (skip) "\<not> (py_endswith ''.eu4'' n
         \<and> (\<exists>y. get_backup_year w (path_join d n) = Inr (Some y) \<and> y < cy - ky))"
      "cleanup_entry d cy ky n w = (Inr (), w)"
  | (removed) y f where "py_endswith ''.eu4'' n"
      "get_backup_year w (path_join d n) = Inr (Some y)" "y < cy - ky"
      "files w (path_join d n) = Some f" "removable f"
      "cleanup_entry d cy ky n w =
        (Inr (), log (LogCleanedUp n y)
           ((log (CallRemove (path_join d n)) w)
              \<lparr>files := (files w)(path_join d n := None),
               dirs := forget_entry (path_join d n) (dirs w)\<rparr>))"
  | (refused) y where "py_endswith ''.eu4'' n"
      "get_backup_year w (path_join d n) = Inr (Some y)" "y < cy - ky"
      "\<not> (\<exists>f. files w (path_join d n) = Some f \<and> removable f)"
      "cleanup_entry d cy ky n w = (Inr (), log (CallRemove (path_join d n)) w)"
proof (cases "py_endswith ''.eu4'' n
         \<and> (\<exists>y. get_backup_year w (path_join d n) = Inr (Some y) \<and> y < cy - ky)")
  case False
  then show ?thesis using cleanup_entry_skip[of n w d cy ky] skip by blast
next
  case True
  then obtain y where y: "py_endswith ''.eu4'' n"
      "get_backup_year w (path_join d n) = Inr (Some y)" "y < cy - ky" by blast
  then have e: "cleanup_entry d cy ky n w = remove_backup n y (path_join d n) w"
    by (rule cleanup_entry_hit)
  show ?thesis
  proof (cases "\<exists>f. files w (path_join d n) = Some f \<and> removable f")
    case True
    then obtain f where f: "files w (path_join d n) = Some f" "removable f" by blast
    from removed[OF y f] e remove_backup_permitted[OF f] show ?thesis by simp
  next
    case False
    from refused[OF y False] e remove_backup_refused[OF False] show ?thesis by simp
  qed
qed

lemma cleanup_entry_returns: "fst (cleanup_entry d cy ky n w) = Inr ()"
  by (cases rule: cleanup_entry_cases[where n=n and w=w and d=d and cy=cy and ky=ky]) simp_all

lemma cleanup_entry_files:
  "files (snd (cleanup_entry d cy ky n w)) =
     (if py_endswith ''.eu4'' n
         \<and> (\<exists>y. get_backup_year w (path_join d n) = Inr (Some y) \<and> y < cy - ky)
         \<and> (\<exists>f. files w (path_join d n) = Some f \<and> removable f)
      then (files w)(path_join d n := None) else files w)"
  by (cases rule: cleanup_entry_cases[where n=n and w=w and d=d and cy=cy and ky=ky]) auto

lemma cleanup_entry_trace:
  "\<exists>evs. trace (snd (cleanup_entry d cy ky n w)) = trace w @ evs
     \<and> {p. CallRemove p \<in> set evs} =
         (if py_endswith ''.eu4'' n
             \<and> (\<exists>y. get_backup_year w (path_join d n) = Inr (Some y) \<and> y < cy - ky)
          then {path_join d n} else {})"
proof (cases rule: cleanup_entry_cases[where n=n and w=w and d=d and cy=cy and ky=ky])
  case skip
  then show ?thesis by (intro exI[of _ "[]"]) simp
next
  case (removed y f)
  then show ?thesis
    by (intro exI[of _ "[CallRemove (path_join d n), LogCleanedUp n y]"]) auto
next
  case (refused y)
  then show ?thesis
    by (intro exI[of _ "[CallRemove (path_join d n)]"]) auto
qed

lemma cleanup_entry_other:
  "write_error (snd (cleanup_entry d cy ky n w)) = write_error w"
  by (cases rule: cleanup_entry_cases[where n=n and w=w and d=d and cy=cy and ky=ky]) simp_all

lemma cleanup_loop_step:
  "cleanup_loop d cy ky (n # ns) w = cleanup_loop d cy ky ns (snd (cleanup_entry d cy ky n w))"
proof -
  obtain r w1 where "cleanup_entry d cy ky n w = (r, w1)" by (cases "cleanup_entry d cy ky n w")
  with cleanup_entry_returns[of d cy ky n w] have e: "cleanup_entry d cy ky n w = (Inr (), w1)"
    by simp
  show ?thesis by (simp add: e)
qed

lemma cleanup_loop_returns: "fst (cleanup_loop d cy ky ns w) = Inr ()"
proof (induction ns arbitrary: w)
  case Nil
  show ?case by simp
next
  case (Cons n ns)
  show ?case unfolding cleanup_loop_step by (rule Cons.IH)
qed

lemma cleanup_loop_other:
  "write_error (snd (cleanup_loop d cy ky ns w)) = write_error w"
proof (induction ns arbitrary: w)
  case Nil show ?case by simp
next
  case (Cons n ns)
  show ?case unfolding cleanup_loop_step
    using Cons.IH[of "snd (cleanup_entry d cy ky n w)"] cleanup_entry_other[of d cy ky n w]
    by simp
qed

lemma cleanup_loop_files:
  "files (snd (cleanup_loop d cy ky ns w)) p =
     (if (\<exists>n\<in>set ns. py_endswith ''.eu4'' n \<and> p = path_join d n)
         \<and> (\<exists>y. get_backup_year w p = Inr (Some y) \<and> y < cy - ky)
         \<and> (\<exists>f. files w p = Some f \<and> removable f)
      then None else files w p)"
proof (induction ns arbitrary: w)
  case Nil
  show ?case by simp
next
  case (Cons n ns)
  define w1 where "w1 = snd (cleanup_entry d cy ky n w)"
  define hit where "hit \<longleftrightarrow> py_endswith ''.eu4'' n
         \<and> (\<exists>y. get_backup_year w (path_join d n) = Inr (Some y) \<and> y < cy - ky)
         \<and> (\<exists>f. files w (path_join d n) = Some f \<and> removable f)"
  define old where "old \<longleftrightarrow> (\<exists>y. get_backup_year w p = Inr (Some y) \<and> y < cy - ky)
         \<and> (\<exists>f. files w p = Some f \<and> removable f)"
  define old1 where "old1 \<longleftrightarrow> (\<exists>y. get_backup_year w1 p = Inr (Some y) \<and> y < cy - ky)
         \<and> (\<exists>f. files w1 p = Some f \<and> removable f)"
  define listed where "listed \<longleftrightarrow> (\<exists>n\<in>set ns. py_endswith ''.eu4'' n \<and> p = path_join d n)"
  have step: "snd (cleanup_loop d cy ky (n # ns) w) = snd (cleanup_loop d cy ky ns w1)"
    unfolding w1_def cleanup_loop_step by (rule refl)
  have f1: "files w1 = (if hit then (files w)(path_join d n := None) else files w)"
    unfolding w1_def hit_def by (rule cleanup_entry_files)
  have ih: "files (snd (cleanup_loop d cy ky ns w1)) p = (if listed \<and> old1 then None else files w1 p)"
    unfolding listed_def old1_def using Cons.IH[of w1] by simp
  have goal: "files (snd (cleanup_loop d cy ky ns w1)) p =
      (if ((py_endswith ''.eu4'' n \<and> p = path_join d n) \<or> listed) \<and> old then None else files w p)"
  proof (cases "hit \<and> p = path_join d n")
    case True
    then have "files w1 p = None" using f1 by simp
    moreover from True have "py_endswith ''.eu4'' n" "old" by (auto simp: hit_def old_def)
    ultimately show ?thesis using ih True by simp
  next
    case False
    then have same: "files w1 p = files w p" using f1 by auto
    then have "get_backup_year w1 p = get_backup_year w p" by (rule get_backup_year_files_cong)
    with same have o: "old1 = old" by (simp add: old1_def old_def)
    show ?thesis
    proof (cases "py_endswith ''.eu4'' n \<and> p = path_join d n \<and> old")
      case True
      with False have False by (auto simp: hit_def old_def)
      then show ?thesis ..
    next
      case False
      then show ?thesis using ih same o by auto
    qed
  qed
  have "(\<exists>n'\<in>set (n # ns). py_endswith ''.eu4'' n' \<and> p = path_join d n')
      \<longleftrightarrow> (py_endswith ''.eu4'' n \<and> p = path_join d n) \<or> listed"
    by (auto simp: listed_def)
  then show ?case unfolding step goal old_def by simp
qed

lemma cleanup_loop_trace:
  "\<exists>evs. trace (snd (cleanup_loop d cy ky ns w)) = trace w @ evs
     \<and> {p. CallRemove p \<in> set evs} =
         {p. (\<exists>n\<in>set ns. py_endswith ''.eu4'' n \<and> p = path_join d n)
              \<and> (\<exists>y. get_backup_year w p = Inr (Some y) \<and> y < cy - ky)}"
proof (induction ns arbitrary: w)
  case Nil
  show ?case by simp
next
  case (Cons n ns)
  define w1 where "w1 = snd (cleanup_entry d cy ky n w)"
  define hit where "hit \<longleftrightarrow> py_endswith ''.eu4'' n
         \<and> (\<exists>y. get_backup_year w (path_join d n) = Inr (Some y) \<and> y < cy - ky)"
  have step: "snd (cleanup_loop d cy ky (n # ns) w) = snd (cleanup_loop d cy ky ns w1)"
    unfolding w1_def cleanup_loop_step by (rule refl)
  obtain evs1 where t1: "trace w1 = trace w @ evs1"
    and r1: "{p. CallRemove p \<in> set evs1} = (if hit then {path_join d n} else {})"
    using cleanup_entry_trace[of d cy ky n w] unfolding w1_def hit_def by blast
  obtain evs2 where t2: "trace (snd (cleanup_loop d cy ky ns w1)) = trace w1 @ evs2"
    and r2: "{p. CallRemove p \<in> set evs2} =
         {p. (\<exists>n\<in>set ns. py_endswith ''.eu4'' n \<and> p = path_join d n)
              \<and> (\<exists>y. get_backup_year w1 p = Inr (Some y) \<and> y < cy - ky)}"
    using Cons.IH[of w1] by blast
  have f1: "files w1 p = files w p \<or> (hit \<and> p = path_join d n \<and> files w1 p = None)" for p
    using cleanup_entry_files[of d cy ky n w] unfolding w1_def hit_def
    by (cases "p = path_join d n") (simp_all split: if_splits)
  have gone: "get_backup_year w1 p = get_backup_year w p
      \<or> (hit \<and> p = path_join d n \<and> get_backup_year w1 p = Inr None)" for p
    using f1[of p] get_backup_year_files_cong[of w1 p w] get_backup_year_missing[of w1 p]
    by blast
  have "{p. CallRemove p \<in> set (evs1 @ evs2)} =
         {p. (\<exists>n'\<in>set (n # ns). py_endswith ''.eu4'' n' \<and> p = path_join d n')
              \<and> (\<exists>y. get_backup_year w p = Inr (Some y) \<and> y < cy - ky)}" (is "?L = ?R")
  proof (intro set_eqI iffI)
    fix p assume "p \<in> ?L"
    then consider "CallRemove p \<in> set evs1" | "CallRemove p \<in> set evs2" by auto
    then show "p \<in> ?R"
    proof cases
      case 1
      then have "p \<in> {p. CallRemove p \<in> set evs1}" by simp
      then have "hit \<and> p = path_join d n" unfolding r1 by (cases hit) auto
      then show ?thesis by (auto simp: hit_def)
    next
      case 2
      then have "p \<in> {p. CallRemove p \<in> set evs2}" by simp
      then have "(\<exists>n\<in>set ns. py_endswith ''.eu4'' n \<and> p = path_join d n)
              \<and> (\<exists>y. get_backup_year w1 p = Inr (Some y) \<and> y < cy - ky)"
        unfolding r2 by simp
      then obtain n' y where n': "n' \<in> set ns" "py_endswith ''.eu4'' n'" "p = path_join d n'"
        "get_backup_year w1 p = Inr (Some y)" "y < cy - ky" by blast
      from gone[of p] n'(4) have "get_backup_year w p = Inr (Some y)" by auto
      with n' show ?thesis by auto
    qed
  next
    fix p assume "p \<in> ?R"
    then obtain n' y where n': "n' \<in> set (n # ns)" "py_endswith ''.eu4'' n'" "p = path_join d n'"
        "get_backup_year w p = Inr (Some y)" "y < cy - ky" by auto
    show "p \<in> ?L"
    proof (cases "hit \<and> p = path_join d n")
      case True
      then have "p \<in> {p. CallRemove p \<in> set evs1}" unfolding r1 by simp
      then have "CallRemove p \<in> set evs1" by simp
      then show ?thesis by simp
    next
      case False
      with gone[of p] have "get_backup_year w1 p = get_backup_year w p" by blast
      moreover from False n' have "n' \<in> set ns" by (auto simp: hit_def)
      ultimately have "p \<in> {p. CallRemove p \<in> set evs2}" unfolding r2 using n' by auto
      then show ?thesis by simp
    qed
  qed
  moreover have "trace (snd (cleanup_loop d cy ky (n # ns) w)) = trace w @ (evs1 @ evs2)"
    unfolding step t2 t1 by simp
  ultimately show ?case by blast
qed

lemma cleanup_loop_append:
  "cleanup_loop d cy ky (xs @ ys) w = cleanup_loop d cy ky ys (snd (cleanup_loop d cy ky xs w))"
proof (induction xs arbitrary: w)
  case Nil show ?case by simp
next
  case (Cons x xs)
  show ?case unfolding append_Cons cleanup_loop_step by (rule Cons.IH)
qed

lemma cleanup_old_backups_int:
  "os_listdir w d = Inr names \<Longrightarrow>
   cleanup_old_backups w d cy (PyInt ky) = cleanup_loop d cy ky names w"
  by (simp add: cleanup_old_backups_def)

lemma get_backup_year_dirs [simp]:
  "get_backup_year (w\<lparr>dirs := ds\<rparr>) p = get_backup_year w p"
  by (rule get_backup_year_files_cong) simp

text \<open>
  Claim C1. Let the listing of the backup directory succeed, and let the retention be
  an integer \<open>N\<close>. Then \<^verbatim>\<open>cleanup_old_backups\<close> returns, and it calls \<^verbatim>\<open>os.remove\<close>
  on exactly the listed entries whose name ends with \<^verbatim>\<open>.eu4\<close> and whose year is present
  and below \<open>Y - N\<close>; such a file is gone afterwards unless the operating system
  refuses the removal, and every other file is as before: in particular every file
  whose year is at least \<open>Y - N\<close> and every file whose year cannot be determined.
  The files afterwards do not depend on the order of the listing. With the
  retention \<^verbatim>\<open>'all'\<close> nothing happens at all.
\<close>

theorem prune_deletes_exactly_expired:
  assumes "os_listdir w d = Inr names"
  shows "\<exists>w' evs. cleanup_old_backups w d Y (PyInt N) = (Inr (), w')
    \<and> trace w' = trace w @ evs
    \<and> {p. CallRemove p \<in> set evs} =
        {p. (\<exists>n\<in>set names. py_endswith ''.eu4'' n \<and> p = path_join d n)
             \<and> (\<exists>y. get_backup_year w p = Inr (Some y) \<and> y < Y - N)}
    \<and> (\<forall>p. files w' p =
          (if (\<exists>n\<in>set names. py_endswith ''.eu4'' n \<and> p = path_join d n)
              \<and> (\<exists>y. get_backup_year w p = Inr (Some y) \<and> y < Y - N)
              \<and> (\<exists>f. files w p = Some f \<and> removable f)
           then None else files w p))
    \<and> (\<forall>p y. get_backup_year w p = Inr (Some y) \<and> Y - N \<le> y \<longrightarrow> files w' p = files w p)
    \<and> (\<forall>p. get_backup_year w p = Inr None \<longrightarrow> files w' p = files w p)
    \<and> (\<forall>names'. set names' = set names \<longrightarrow>
          files (snd (cleanup_old_backups (w\<lparr>dirs := (dirs w)(d \<mapsto> names')\<rparr>) d Y (PyInt N)))
            = files w')
    \<and> cleanup_old_backups w d Y (PyStr ''all'') = (Inr (), w)"
proof -
  define w' where "w' = snd (cleanup_loop d Y N names w)"
  have run: "cleanup_old_backups w d Y (PyInt N) = (Inr (), w')"
    using cleanup_old_backups_int[OF assms, of Y N] cleanup_loop_returns[of d Y N names w]
    by (simp add: w'_def prod_eq_iff)
  obtain evs where tr: "trace w' = trace w @ evs"
    "{p. CallRemove p \<in> set evs} =
        {p. (\<exists>n\<in>set names. py_endswith ''.eu4'' n \<and> p = path_join d n)
             \<and> (\<exists>y. get_backup_year w p = Inr (Some y) \<and> y < Y - N)}"
    using cleanup_loop_trace[of d Y N names w] unfolding w'_def by blast
  have fl: "files w' p =
          (if (\<exists>n\<in>set names. py_endswith ''.eu4'' n \<and> p = path_join d n)
              \<and> (\<exists>y. get_backup_year w p = Inr (Some y) \<and> y < Y - N)
              \<and> (\<exists>f. files w p = Some f \<and> removable f)
           then None else files w p)" for p
    unfolding w'_def by (rule cleanup_loop_files)
  have keep1: "files w' p = files w p" if "get_backup_year w p = Inr (Some y)" "Y - N \<le> y" for p y
    using that by (simp add: fl)
  have keep2: "files w' p = files w p" if "get_backup_year w p = Inr None" for p
    using that by (simp add: fl)
  have order: "files (snd (cleanup_old_backups (w\<lparr>dirs := (dirs w)(d \<mapsto> names')\<rparr>) d Y (PyInt N)))
            = files w'" if "set names' = set names" for names'
  proof -
    let ?v = "w\<lparr>dirs := (dirs w)(d \<mapsto> names')\<rparr>"
    have "os_listdir ?v d = Inr names'" by (simp add: os_listdir_def)
    then have "cleanup_old_backups ?v d Y (PyInt N) = cleanup_loop d Y N names' ?v"
      by (rule cleanup_old_backups_int)
    moreover have "files (snd (cleanup_loop d Y N names' ?v)) p = files w' p" for p
      unfolding cleanup_loop_files fl using that by auto
    ultimately show ?thesis by auto
  qed
  have all: "cleanup_old_backups w d Y (PyStr ''all'') = (Inr (), w)"
    by (simp add: cleanup_old_backups_def)
  from run tr fl keep1 keep2 order all show ?thesis by blast
qed

theorem prune_deletes_exactly_expired_witness:
  "os_listdir backup_world ''/bk'' = Inr [''mp_autosave_SWE_b.eu4'', ''mp_autosave_SWE_a.eu4'',
                ''mp_autosave_SWE_c.eu4'', ''mp_autosave_SWE_d.eu4'', ''notes.txt'']
   \<and> files (snd (cleanup_old_backups backup_world ''/bk'' 1523 (PyInt 10)))
        ''/bk/mp_autosave_SWE_a.eu4'' = None
   \<and> files (snd (cleanup_old_backups backup_world ''/bk'' 1523 (PyInt 10)))
        ''/bk/mp_autosave_SWE_c.eu4'' = files backup_world ''/bk/mp_autosave_SWE_c.eu4''
   \<and> files (snd (cleanup_old_backups backup_world ''/bk'' 1523 (PyInt 10)))
        ''/bk/mp_autosave_SWE_d.eu4'' = files backup_world ''/bk/mp_autosave_SWE_d.eu4''"
proof -
  let ?names = "[''mp_autosave_SWE_b.eu4'', ''mp_autosave_SWE_a.eu4'',
                ''mp_autosave_SWE_c.eu4'', ''mp_autosave_SWE_d.eu4'', ''notes.txt'']"
  have h: "os_listdir backup_world ''/bk'' = Inr ?names"
    by (simp add: os_listdir_def backup_world_def)
  have ya: "get_backup_year backup_world ''/bk/mp_autosave_SWE_a.eu4'' = Inr (Some 1500)"
    by code_simp
  have yc: "get_backup_year backup_world ''/bk/mp_autosave_SWE_c.eu4'' = Inr (Some 1522)"
    by code_simp
  have yd: "get_backup_year backup_world ''/bk/mp_autosave_SWE_d.eu4'' = Inr None"
    by code_simp
  have ea: "py_endswith ''.eu4'' ''mp_autosave_SWE_a.eu4''" by code_simp
  have ja: "path_join ''/bk'' ''mp_autosave_SWE_a.eu4'' = ''/bk/mp_autosave_SWE_a.eu4''"
    by code_simp
  have fa: "files backup_world ''/bk/mp_autosave_SWE_a.eu4''
      = Some (save_file (''date=1500.1.1'' @ [LF]))" by (simp add: backup_world_def)
  have ra: "removable (save_file (''date=1500.1.1'' @ [LF]))" by (simp add: save_file_def)
  from prune_deletes_exactly_expired [OF h, of 1523 10]
  obtain w' where run: "cleanup_old_backups backup_world ''/bk'' 1523 (PyInt 10) = (Inr (), w')"
    and fl: "\<forall>p. files w' p =
          (if (\<exists>n\<in>set ?names. py_endswith ''.eu4'' n \<and> p = path_join ''/bk'' n)
              \<and> (\<exists>y. get_backup_year backup_world p = Inr (Some y) \<and> y < 1523 - 10)
              \<and> (\<exists>f. files backup_world p = Some f \<and> removable f)
           then None else files backup_world p)"
    and keep1: "\<forall>p y. get_backup_year backup_world p = Inr (Some y) \<and> 1523 - 10 \<le> y
          \<longrightarrow> files w' p = files backup_world p"
    and keep2: "\<forall>p. get_backup_year backup_world p = Inr None \<longrightarrow> files w' p = files backup_world p"
    by blast
  have "(\<exists>n\<in>set ?names. py_endswith ''.eu4'' n \<and> ''/bk/mp_autosave_SWE_a.eu4'' = path_join ''/bk'' n)"
    using ea ja by simp
  moreover have "\<exists>y. get_backup_year backup_world ''/bk/mp_autosave_SWE_a.eu4'' = Inr (Some y)
      \<and> y < 1523 - 10" using ya by simp
  moreover have "\<exists>f. files backup_world ''/bk/mp_autosave_SWE_a.eu4'' = Some f \<and> removable f"
    using fa ra by simp
  ultimately have a: "files w' ''/bk/mp_autosave_SWE_a.eu4'' = None"
    using fl by simp
  have c: "files w' ''/bk/mp_autosave_SWE_c.eu4'' = files backup_world ''/bk/mp_autosave_SWE_c.eu4''"
    using keep1 yc by simp
  have d: "files w' ''/bk/mp_autosave_SWE_d.eu4'' = files backup_world ''/bk/mp_autosave_SWE_d.eu4''"
    using keep2 yd by simp
  from h a c d run show ?thesis by simp
qed

text \<open>
  Claim C7. Let the listing of the backup directory succeed. Whatever removals the
  operating system refuses, \<^verbatim>\<open>cleanup_old_backups\<close> returns without raising; after
  every entry, whatever happened to it, the scan goes on with the entries that
  remain; every listed \<^verbatim>\<open>.eu4\<close> entry with a year below the cutoff has its
  \<^verbatim>\<open>os.remove\<close> call made, and is gone if the call is permitted; a file whose removal
  is refused stays as it was.
\<close>

theorem prune_ignores_failed_removals:
  assumes "os_listdir w d = Inr names"
  shows "\<exists>w'. cleanup_old_backups w d Y (PyInt N) = (Inr (), w')
    \<and> (\<forall>pre n post. names = pre @ n # post \<longrightarrow>
          fst (cleanup_entry d Y N n (snd (cleanup_loop d Y N pre w))) = Inr ()
          \<and> w' = snd (cleanup_loop d Y N post
                   (snd (cleanup_entry d Y N n (snd (cleanup_loop d Y N pre w))))))
    \<and> (\<forall>n\<in>set names. py_endswith ''.eu4'' n
          \<and> (\<exists>y. get_backup_year w (path_join d n) = Inr (Some y) \<and> y < Y - N)
          \<longrightarrow> CallRemove (path_join d n) \<in> set (trace w')
              \<and> ((\<exists>f. files w (path_join d n) = Some f \<and> removable f)
                    \<longrightarrow> files w' (path_join d n) = None))
    \<and> (\<forall>p. \<not> (\<exists>f. files w p = Some f \<and> removable f) \<longrightarrow> files w' p = files w p)"
proof -
  define w' where "w' = snd (cleanup_loop d Y N names w)"
  have run: "cleanup_old_backups w d Y (PyInt N) = (Inr (), w')"
    using cleanup_old_backups_int[OF assms, of Y N] cleanup_loop_returns[of d Y N names w]
    by (simp add: w'_def prod_eq_iff)
  have scan: "fst (cleanup_entry d Y N n (snd (cleanup_loop d Y N pre w))) = Inr ()
          \<and> w' = snd (cleanup_loop d Y N post
                   (snd (cleanup_entry d Y N n (snd (cleanup_loop d Y N pre w)))))"
    if "names = pre @ n # post" for pre n post
    unfolding w'_def that cleanup_loop_append cleanup_loop_step
    by (simp add: cleanup_entry_returns)
  obtain evs where tr: "trace w' = trace w @ evs"
    "{p. CallRemove p \<in> set evs} =
        {p. (\<exists>n\<in>set names. py_endswith ''.eu4'' n \<and> p = path_join d n)
             \<and> (\<exists>y. get_backup_year w p = Inr (Some y) \<and> y < Y - N)}"
    using cleanup_loop_trace[of d Y N names w] unfolding w'_def by blast
  have fl: "files w' p =
          (if (\<exists>n\<in>set names. py_endswith ''.eu4'' n \<and> p = path_join d n)
              \<and> (\<exists>y. get_backup_year w p = Inr (Some y) \<and> y < Y - N)
              \<and> (\<exists>f. files w p = Some f \<and> removable f)
           then None else files w p)" for p
    unfolding w'_def by (rule cleanup_loop_files)
  have called: "CallRemove (path_join d n) \<in> set (trace w')
              \<and> ((\<exists>f. files w (path_join d n) = Some f \<and> removable f)
                    \<longrightarrow> files w' (path_join d n) = None)"
    if n: "n \<in> set names" "py_endswith ''.eu4'' n
          \<and> (\<exists>y. get_backup_year w (path_join d n) = Inr (Some y) \<and> y < Y - N)" for n
  proof -
    from n have "path_join d n \<in> {p. (\<exists>n\<in>set names. py_endswith ''.eu4'' n \<and> p = path_join d n)
             \<and> (\<exists>y. get_backup_year w p = Inr (Some y) \<and> y < Y - N)}" by blast
    then have "path_join d n \<in> {p. CallRemove p \<in> set evs}" unfolding tr(2) .
    then have "CallRemove (path_join d n) \<in> set (trace w')" by (simp add: tr(1))
    moreover have "(\<exists>f. files w (path_join d n) = Some f \<and> removable f)
                    \<longrightarrow> files w' (path_join d n) = None"
      unfolding fl using n by auto
    ultimately show ?thesis by blast
  qed
  have kept: "files w' p = files w p" if "\<not> (\<exists>f. files w p = Some f \<and> removable f)" for p
    unfolding fl using that by auto
  from run scan called kept show ?thesis by blast
qed

theorem prune_ignores_failed_removals_witness:
  "os_listdir backup_world ''/bk'' = Inr [''mp_autosave_SWE_b.eu4'', ''mp_autosave_SWE_a.eu4'',
                ''mp_autosave_SWE_c.eu4'', ''mp_autosave_SWE_d.eu4'', ''notes.txt'']
   \<and> fst (cleanup_old_backups backup_world ''/bk'' 1523 (PyInt 10)) = Inr ()
   \<and> CallRemove ''/bk/mp_autosave_SWE_b.eu4''
        \<in> set (trace (snd (cleanup_old_backups backup_world ''/bk'' 1523 (PyInt 10))))
   \<and> files (snd (cleanup_old_backups backup_world ''/bk'' 1523 (PyInt 10)))
        ''/bk/mp_autosave_SWE_b.eu4'' = files backup_world ''/bk/mp_autosave_SWE_b.eu4''
   \<and> files (snd (cleanup_old_backups backup_world ''/bk'' 1523 (PyInt 10)))
        ''/bk/mp_autosave_SWE_a.eu4'' = None"
proof -
  let ?names = "[''mp_autosave_SWE_b.eu4'', ''mp_autosave_SWE_a.eu4'',
                ''mp_autosave_SWE_c.eu4'', ''mp_autosave_SWE_d.eu4'', ''notes.txt'']"
  have h: "os_listdir backup_world ''/bk'' = Inr ?names"
    by (simp add: os_listdir_def backup_world_def)
  have ya: "get_backup_year backup_world ''/bk/mp_autosave_SWE_a.eu4'' = Inr (Some 1500)"
    by code_simp
  have yb: "get_backup_year backup_world ''/bk/mp_autosave_SWE_b.eu4'' = Inr (Some 1510)"
    by code_simp
  have ea: "py_endswith ''.eu4'' ''mp_autosave_SWE_a.eu4''" by code_simp
  have eb: "py_endswith ''.eu4'' ''mp_autosave_SWE_b.eu4''" by code_simp
  have ja: "path_join ''/bk'' ''mp_autosave_SWE_a.eu4'' = ''/bk/mp_autosave_SWE_a.eu4''"
    by code_simp
  have jb: "path_join ''/bk'' ''mp_autosave_SWE_b.eu4'' = ''/bk/mp_autosave_SWE_b.eu4''"
    by code_simp
  have fa: "\<exists>f. files backup_world ''/bk/mp_autosave_SWE_a.eu4'' = Some f \<and> removable f"
    by (simp add: backup_world_def save_file_def)
  have fb: "\<not> (\<exists>f. files backup_world ''/bk/mp_autosave_SWE_b.eu4'' = Some f \<and> removable f)"
    by (simp add: backup_world_def save_file_def)
  from prune_ignores_failed_removals [OF h, of 1523 10]
  obtain w' where run: "cleanup_old_backups backup_world ''/bk'' 1523 (PyInt 10) = (Inr (), w')"
    and called: "\<forall>n\<in>set ?names. py_endswith ''.eu4'' n
          \<and> (\<exists>y. get_backup_year backup_world (path_join ''/bk'' n) = Inr (Some y) \<and> y < 1523 - 10)
          \<longrightarrow> CallRemove (path_join ''/bk'' n) \<in> set (trace w')
              \<and> ((\<exists>f. files backup_world (path_join ''/bk'' n) = Some f \<and> removable f)
                    \<longrightarrow> files w' (path_join ''/bk'' n) = None)"
    and kept: "\<forall>p. \<not> (\<exists>f. files backup_world p = Some f \<and> removable f)
          \<longrightarrow> files w' p = files backup_world p"
    by blast
  have b1: "CallRemove ''/bk/mp_autosave_SWE_b.eu4'' \<in> set (trace w')"
    using called [rule_format, of "''mp_autosave_SWE_b.eu4''"] eb yb jb by simp
  have b2: "files w' ''/bk/mp_autosave_SWE_b.eu4'' = files backup_world ''/bk/mp_autosave_SWE_b.eu4''"
    using kept fb by blast
  have a1: "files w' ''/bk/mp_autosave_SWE_a.eu4'' = None"
    using called [rule_format, of "''mp_autosave_SWE_a.eu4''"] ea ya ja fa by simp
  from h run b1 b2 a1 show ?thesis by simp
qed

lemma prune_noop_on_type_or_value_error:
  "keep \<noteq> PyStr ''all'' \<Longrightarrow> py_int keep = Inl e \<Longrightarrow> e = TypeError \<or> e = ValueError \<Longrightarrow>
   cleanup_old_backups w d Y keep = (Inr (), w)"
  by (auto simp: cleanup_old_backups_def)

text \<open>
  Claim C10, at a retention that is not convertible to an integer: \<^verbatim>\<open>int(float('inf'))\<close>
  raises \<^verbatim>\<open>OverflowError\<close>, which \<^verbatim>\<open>except (TypeError, ValueError)\<close> does not catch,
  so \<^verbatim>\<open>cleanup_old_backups\<close> raises instead of returning silently.
\<close>

theorem prune_raises_on_infinite_retention:
  "cleanup_old_backups w d Y (PyFloat Infinity) = (Inl OverflowError, w)"
  by (simp add: cleanup_old_backups_def)

subsection \<open>The monitoring loop\<close>

lemma tick_change_check:
  assumes "\<not> ctrl_c i" "\<not> ctrl_q i" "is_multiple (heartbeat m + 1) (interval m) = Inr True"
  shows "tick i m w = change_check (localtime i) (m\<lparr>heartbeat := heartbeat m + 1\<rparr>) w"
  using assms by (simp add: tick_def Let_def)

lemma example_due:
  "is_multiple (heartbeat example_monitor + 1) (interval example_monitor) = Inr True"
  by (simp add: is_multiple_def example_monitor_def)

text \<open>
  Claim C2. On a pass of the loop that makes the change check (no Ctrl+C, no Ctrl+Q,
  the heartbeat a multiple of the interval) and on which \<^verbatim>\<open>get_mtime\<close> gives the value
  \<^verbatim>\<open>last_mtime\<close> already holds, no backup is written: the loop goes on watching, the
  files are the same, and the world differs from the one before at most by the
  status line. Nothing is assumed about the content of any file.
\<close>

theorem unchanged_mtime_writes_no_backup:
  assumes "\<not> ctrl_c i" "\<not> ctrl_q i"
    and "is_multiple (heartbeat m + 1) (interval m) = Inr True"
    and "get_mtime w (SOURCE m) = Inr (last_mtime m)"
  shows "\<exists>w'. tick i m w = Watching (m\<lparr>heartbeat := heartbeat m + 1\<rparr>) w'
    \<and> (w' = w \<or> w' = log LogWatching w) \<and> files w' = files w"
  unfolding tick_change_check[OF assms(1,2,3)] using assms(4)
  by (simp add: change_check_def Let_def)

theorem unchanged_mtime_writes_no_backup_witness:
  "\<not> ctrl_c example_input \<and> \<not> ctrl_q example_input
   \<and> is_multiple (heartbeat example_monitor + 1) (interval example_monitor) = Inr True
   \<and> get_mtime example_world (SOURCE example_monitor) = Inr (last_mtime example_monitor)
   \<and> (\<exists>w'. tick example_input example_monitor example_world
             = Watching (example_monitor\<lparr>heartbeat := heartbeat example_monitor + 1\<rparr>) w'
          \<and> files w' = files example_world)"
proof -
  have a: "\<not> ctrl_c example_input" "\<not> ctrl_q example_input"
    by (simp_all add: example_input_def)
  have g: "get_mtime example_world (SOURCE example_monitor) = Inr (last_mtime example_monitor)"
    by (simp add: get_mtime_def os_getmtime_def example_world_def example_monitor_def save_file_def)
  from unchanged_mtime_writes_no_backup [OF a example_due g] a example_due g
  show ?thesis by blast
qed

text \<open>
  Claim C8. On a pass of the loop that makes the change check and on which
  \<^verbatim>\<open>os.path.getmtime\<close> raises \<^verbatim>\<open>FileNotFoundError\<close> for the source, nothing is raised and
  the loop goes on watching: no backup is written, the files are the same, and
  \<^verbatim>\<open>last_mtime\<close> keeps its value.
\<close>

theorem missing_source_is_no_change:
  assumes "\<not> ctrl_c i" "\<not> ctrl_q i"
    and "is_multiple (heartbeat m + 1) (interval m) = Inr True"
    and "os_getmtime w (SOURCE m) = Inl FileNotFoundError"
  shows "\<exists>m' w'. tick i m w = Watching m' w'
    \<and> m' = m\<lparr>heartbeat := heartbeat m + 1\<rparr> \<and> last_mtime m' = last_mtime m
    \<and> (w' = w \<or> w' = log LogWatching w) \<and> files w' = files w"
  unfolding tick_change_check[OF assms(1,2,3)] using assms(4)
  by (simp add: change_check_def get_mtime_def Let_def)

theorem missing_source_is_no_change_witness:
  "\<not> ctrl_c example_input \<and> \<not> ctrl_q example_input
   \<and> is_multiple (heartbeat example_monitor + 1) (interval example_monitor) = Inr True
   \<and> os_getmtime example_world ''/saves/missing.eu4'' = Inl FileNotFoundError
   \<and> (\<exists>m' w'. tick example_input (example_monitor\<lparr>SOURCE := ''/saves/missing.eu4''\<rparr>) example_world
             = Watching m' w'
          \<and> last_mtime m' = Some 100 \<and> files w' = files example_world)"
proof -
  let ?m = "example_monitor\<lparr>SOURCE := ''/saves/missing.eu4''\<rparr>"
  have a: "\<not> ctrl_c example_input" "\<not> ctrl_q example_input"
    by (simp_all add: example_input_def)
  have d: "is_multiple (heartbeat ?m + 1) (interval ?m) = Inr True"
    using example_due by simp
  have g: "os_getmtime example_world (SOURCE ?m) = Inl FileNotFoundError"
    by (simp add: os_getmtime_def example_world_def)
  have l: "last_mtime ?m = Some 100" by (simp add: example_monitor_def)
  from missing_source_is_no_change [OF a d g] a example_due g l
  show ?thesis by auto
qed

subsection \<open>Reading the tag and the year\<close>

lemma strip_while_keeps:
  assumes "a \<noteq> []" "\<not> P (hd a)" "\<not> P c"
  shows "\<exists>b'. strip_while P (a @ c # b) = a @ c # b'"
proof -
  have d: "dropWhile P (a @ c # b) = a @ c # b"
    using assms(1,2) by (cases a) simp_all
  have r: "rev (a @ c # b) = rev b @ c # rev a" by simp
  show ?thesis
  proof (cases "\<forall>x\<in>set (rev b). P x")
    case True
    then have "dropWhile P (rev b @ c # rev a) = dropWhile P (c # rev a)"
      by (intro dropWhile_append2) blast
    then have "dropWhile P (rev b @ c # rev a) = c # rev a"
      using assms(3) by simp
    then have "strip_while P (a @ c # b) = a @ c # []"
      unfolding strip_while_def d r by simp
    then show ?thesis by blast
  next
    case False
    then obtain x where "x \<in> set (rev b)" "\<not> P x" by blast
    then have "dropWhile P (rev b @ c # rev a) = dropWhile P (rev b) @ c # rev a"
      by (rule dropWhile_append1)
    then have "strip_while P (a @ c # b) = a @ c # rev (dropWhile P (rev b))"
      unfolding strip_while_def d r by simp
    then show ?thesis by blast
  qed
qed

lemma strip_while_prefix:
  assumes "\<forall>x\<in>set q. P x"
  shows "strip_while P (q @ s) = strip_while P s"
  using assms by (simp add: strip_while_def)

lemma set_strip_while: "set (strip_while P s) \<subseteq> set s"
proof -
  have "set (dropWhile P (rev (dropWhile P s))) \<subseteq> set (rev (dropWhile P s))"
    by (rule set_dropWhileD[THEN subsetI]) 
  also have "\<dots> \<subseteq> set s" using set_dropWhileD by fastforce
  finally show ?thesis by (simp add: strip_while_def)
qed

lemma py_split_append:
  "sep \<notin> set a \<Longrightarrow> py_split sep (a @ sep # b) = a # py_split sep b"
  by (induction a) (auto split: list.splits)

lemma hd_py_split: "hd (py_split sep s) = takeWhile (\<lambda>c. c \<noteq> sep) s"
  by (induction s) (auto simp: py_split_not_Nil split: list.splits)

lemma py_index_0: "py_index (py_split sep s) 0 = Inr (takeWhile (\<lambda>c. c \<noteq> sep) s)"
proof -
  have "py_split sep s \<noteq> []" by (rule py_split_not_Nil)
  then show ?thesis
    using hd_py_split[of sep s] by (cases "py_split sep s") (simp_all add: py_index_def)
qed

lemma py_index_1_split:
  assumes "sep \<notin> set a"
  shows "py_index (py_split sep (a @ sep # b)) 1 = Inr (takeWhile (\<lambda>c. c \<noteq> sep) b)"
proof -
  have "py_split sep b \<noteq> []" by (rule py_split_not_Nil)
  then show ?thesis
    unfolding py_split_append[OF assms]
    using hd_py_split[of sep b] by (cases "py_split sep b") (simp_all add: py_index_def)
qed

text \<open>A line that contains the separator has a second field.\<close>

lemma py_index_1_exists:
  assumes "sep \<in> set s"
  shows "\<exists>seg. py_index (py_split sep s) 1 = Inr seg"
proof -
  from assms obtain a b where "s = a @ sep # b" "sep \<notin> set a"
    by (meson split_list_first)
  then show ?thesis using py_index_1_split by blast
qed

lemma startswith_mem:
  assumes "py_startswith pre s" "c \<in> set pre"
  shows "c \<in> set s"
proof -
  from assms(1) have "take (length pre) s = pre" by (simp add: py_startswith_def)
  then have "set pre \<subseteq> set s" by (metis set_take_subset)
  with assms(2) show ?thesis by blast
qed

lemma field_of_line_exists:
  assumes "CHR ''='' \<in> set line"
  shows "field_of_line line
    = Inr (py_strip_chars [CHR 0x22] (py_strip (py_split CHR ''='' line ! 1)))"
proof -
  from py_index_1_exists[OF assms] obtain seg where
    s: "py_index (py_split CHR ''='' line) 1 = Inr seg" by blast
  then have "seg = py_split CHR ''='' line ! 1"
    by (auto simp: py_index_def split: if_splits)
  with s show ?thesis by (simp add: field_of_line_def)
qed

lemma second_field_index:
  assumes "CHR ''='' \<in> set line"
  shows "py_index (py_split CHR ''='' line) 1 = Inr (second_field line)"
proof -
  define a where "a = takeWhile (\<lambda>c. c \<noteq> CHR ''='') line"
  define b where "b = drop 1 (dropWhile (\<lambda>c. c \<noteq> CHR ''='') line)"
  have "dropWhile (\<lambda>c. c \<noteq> CHR ''='') line \<noteq> []" using assms by simp
  moreover from this have "hd (dropWhile (\<lambda>c. c \<noteq> CHR ''='') line) = CHR ''=''"
    using hd_dropWhile[of "\<lambda>c. c \<noteq> CHR ''=''" line] by simp
  ultimately have "dropWhile (\<lambda>c. c \<noteq> CHR ''='') line = CHR ''='' # b"
    unfolding b_def by (cases "dropWhile (\<lambda>c. c \<noteq> CHR ''='') line") simp_all
  then have l: "line = a @ CHR ''='' # b"
    unfolding a_def using takeWhile_dropWhile_id[of "\<lambda>c. c \<noteq> CHR ''=''" line] by simp
  have n: "CHR ''='' \<notin> set a"
    unfolding a_def using set_takeWhileD by fastforce
  have "py_index (py_split CHR ''='' (a @ CHR ''='' # b)) 1
      = Inr (takeWhile (\<lambda>c. c \<noteq> CHR ''='') b)"
    using n by (rule py_index_1_split)
  then have "py_index (py_split CHR ''='' line) 1 = Inr (takeWhile (\<lambda>c. c \<noteq> CHR ''='') b)"
    by (simp only: l[symmetric])
  then show ?thesis by (simp only: second_field_def b_def)
qed

lemma field_of_line_value:
  assumes "CHR ''='' \<in> set line"
  shows "field_of_line line = Inr (tag_value line)"
  unfolding field_of_line_def tag_value_def second_field_index[OF assms] by simp

lemma tag_loop_find:
  assumes "\<And>l. P l \<Longrightarrow> CHR ''='' \<in> set l"
  shows "tag_loop P ls
    = Inr (map_option tag_value (find (\<lambda>l. P l \<and> usable_tag (tag_value l)) ls))"
proof (induction ls)
  case Nil
  show ?case by simp
next
  case (Cons l ls)
  show ?case
  proof (cases "P l")
    case False
    then show ?thesis using Cons.IH by simp
  next
    case True
    then have "field_of_line l = Inr (tag_value l)"
      using assms field_of_line_value by blast
    with True show ?thesis using Cons.IH by (simp add: usable_tag_def)
  qed
qed

lemma player_line_has_eq: "py_startswith ''player='' l \<Longrightarrow> CHR ''='' \<in> set l"
  by (rule startswith_mem[where pre = "''player=''"]) simp_all

lemma stripped_player_line_has_eq:
  "py_startswith ''player='' (py_strip l) \<Longrightarrow> CHR ''='' \<in> set l"
  using player_line_has_eq[of "py_strip l"] set_strip_while[of py_isspace l]
  by (auto simp: py_strip_def)

text \<open>
  Claim C5, amended. For a readable file, \<^verbatim>\<open>get_player_tag\<close> returns the value of the
  first line, among the lines of the decoded text split at line feeds, whose trimmed
  form starts with \<^verbatim>\<open>player=\<close> and whose value is neither empty nor \<^verbatim>\<open>---\<close>; lines
  before it that start with \<^verbatim>\<open>player=\<close> but have an empty value or \<^verbatim>\<open>---\<close> are passed
  over, and no line after it is read. The value is the part of the line between its
  first and its second \<^verbatim>\<open>=\<close>, trimmed of whitespace and then of quotes. When no such
  line exists, the lines of the file read as text are searched in the same way (the
  line itself, not its trimmed form, must start with \<^verbatim>\<open>player=\<close>), and when none of
  those qualifies either the result is \<^verbatim>\<open>UNKNOWN\<close>.
\<close>

theorem player_tag_of_first_usable_line:
  assumes "os_open w p = Inr txt"
  shows "get_player_tag w p =
     (Inr (case find (\<lambda>l. py_startswith ''player='' (py_strip l) \<and> usable_tag (tag_value l))
                  (py_split LF txt) of
             Some l \<Rightarrow> tag_value l
           | None \<Rightarrow>
               (case find (\<lambda>l. py_startswith ''player='' l \<and> usable_tag (tag_value l))
                       (file_lines (universal_newlines txt)) of
                  Some l \<Rightarrow> tag_value l
                | None \<Rightarrow> ''UNKNOWN'')), w)"
proof -
  have l1: "tag_loop (\<lambda>line. py_startswith ''player='' (py_strip line)) ls
      = Inr (map_option tag_value
          (find (\<lambda>l. py_startswith ''player='' (py_strip l) \<and> usable_tag (tag_value l)) ls))" for ls
    by (rule tag_loop_find) (rule stripped_player_line_has_eq)
  have l2: "tag_loop (\<lambda>line. py_startswith ''player='' line) ls
      = Inr (map_option tag_value
          (find (\<lambda>l. py_startswith ''player='' l \<and> usable_tag (tag_value l)) ls))" for ls
    by (rule tag_loop_find) (rule player_line_has_eq)
  show ?thesis
    unfolding get_player_tag_def get_player_tag_try_def read_binary_lines_def
      read_text_lines_def assms l1 l2
    by (simp split: option.splits)
qed

theorem player_tag_of_first_usable_line_witness:
  "os_open noisy_world ''/saves/two_players.eu4''
     = Inr (''player=\"---\"'' @ [LF] @ ''player=\"SWE\"'' @ [LF])
   \<and> get_player_tag noisy_world ''/saves/two_players.eu4'' = (Inr ''SWE'', noisy_world)"
proof -
  let ?txt = "''player=\"---\"'' @ [LF] @ ''player=\"SWE\"'' @ [LF]"
  have h: "os_open noisy_world ''/saves/two_players.eu4'' = Inr ?txt"
    by (simp add: os_open_def noisy_world_def save_file_def)
  have f: "find (\<lambda>l. py_startswith ''player='' (py_strip l) \<and> usable_tag (tag_value l))
                  (py_split LF ?txt) = Some ''player=\"SWE\"''"
    by code_simp
  have v: "tag_value ''player=\"SWE\"'' = ''SWE''" by code_simp
  from player_tag_of_first_usable_line [OF h] h f v show ?thesis by simp
qed

text \<open>
  Claim C5 says that the first line starting with \<^verbatim>\<open>player=\<close> decides and that the scan
  never goes past it. In a file whose first such line is \<^verbatim>\<open>player="---"\<close> and whose
  second is \<^verbatim>\<open>player="SWE"\<close>, that reading gives no player, but \<^verbatim>\<open>get_player_tag\<close>
  scans on and returns \<^verbatim>\<open>SWE\<close>.
\<close>

theorem first_player_line_decides_counterexample:
  "os_open noisy_world ''/saves/two_players.eu4''
     = Inr (''player=\"---\"'' @ [LF] @ ''player=\"SWE\"'' @ [LF])
   \<and> spec_player_tag (''player=\"---\"'' @ [LF] @ ''player=\"SWE\"'' @ [LF]) = None
   \<and> fst (get_player_tag noisy_world ''/saves/two_players.eu4'') = Inr ''SWE''"
  by code_simp

lemma parse_digits_chars:
  "parse_digits acc s = Some n \<Longrightarrow> \<forall>c\<in>set s. is_digit c \<or> c = CHR ''_''"
  by (induction acc s rule: parse_digits.induct)
     (auto simp: is_digit_def split: option.splits if_splits)

lemma parse_unsigned_chars:
  assumes "parse_unsigned s = Inr n"
  shows "s \<noteq> [] \<and> (\<forall>c\<in>set s. is_digit c \<or> c = CHR ''_'')"
proof (cases s)
  case Nil
  with assms show ?thesis by (simp add: parse_unsigned_def)
next
  case (Cons b bs)
  with assms obtain v m where "digit_val b = Some v" "parse_digits v bs = Some m"
    by (auto simp: parse_unsigned_def split: option.splits if_splits)
  then show ?thesis using Cons parse_digits_chars[of v bs m] by (auto simp: is_digit_def)
qed

lemma py_int_str_core:
  assumes "py_int_str s = Inr y"
  shows "strip_while int_space s \<noteq> [] \<and> (\<forall>c\<in>set (strip_while int_space s). int_char c)"
proof (cases "strip_while int_space s")
  case Nil
  with assms show ?thesis by (simp add: py_int_str_def)
next
  case (Cons c cs)
  show ?thesis
  proof (cases "c = CHR ''-'' \<or> c = CHR ''+''")
    case True
    with assms Cons obtain n where "parse_unsigned cs = Inr n"
      by (auto simp: py_int_str_def split: sum.splits if_splits)
    from parse_unsigned_chars[OF this] True Cons show ?thesis by (auto simp: int_char_def)
  next
    case False
    with assms Cons have "parse_unsigned (c # cs) = Inr y"
      by (simp add: py_int_str_def)
    from parse_unsigned_chars[OF this] Cons show ?thesis by (auto simp: int_char_def)
  qed
qed

lemma strip_while_mem:
  assumes "c \<in> set s"
  shows "P c \<or> c \<in> set (strip_while P s)"
proof (cases "c \<in> set (takeWhile P s)")
  case True
  then show ?thesis using set_takeWhileD by fastforce
next
  case False
  define d where "d = dropWhile P s"
  have "s = takeWhile P s @ d" by (simp add: d_def)
  with assms False have "c \<in> set d" by (metis Un_iff set_append)
  then have cd: "c \<in> set (rev d)" by simp
  show ?thesis
  proof (cases "c \<in> set (takeWhile P (rev d))")
    case True
    then show ?thesis using set_takeWhileD by fastforce
  next
    case False
    have "rev d = takeWhile P (rev d) @ dropWhile P (rev d)" by simp
    with cd False have "c \<in> set (dropWhile P (rev d))" by (metis Un_iff set_append)
    then show ?thesis by (simp add: strip_while_def d_def)
  qed
qed

lemma py_int_str_chars:
  assumes "py_int_str s = Inr y" "c \<in> set s"
  shows "int_space c \<or> int_char c"
  using strip_while_mem[OF assms(2), of int_space] py_int_str_core[OF assms(1)] by blast

lemma int_space_isspace: "int_space c \<Longrightarrow> py_isspace c"
  by (auto simp: int_space_def py_isspace_def)

lemma int_char_not_space: "int_char c \<Longrightarrow> \<not> py_isspace c"
  by (auto simp: int_char_def is_digit_def digit_val_def py_isspace_def split: if_splits)

lemma int_char_not_special:
  "int_char c \<Longrightarrow> c \<noteq> CHR 0x22 \<and> c \<noteq> CHR ''.'' \<and> c \<noteq> CHR ''=''"
  by (auto simp: int_char_def is_digit_def digit_val_def split: if_splits)

lemma isspace_not_special:
  "py_isspace c \<Longrightarrow> c \<noteq> CHR 0x22 \<and> c \<noteq> CHR ''.'' \<and> c \<noteq> CHR ''=''"
  by (auto simp: py_isspace_def)

lemma py_int_str_lstrip:
  assumes "py_int_str yyyy = Inr y"
  shows "dropWhile py_isspace yyyy \<noteq> []"
    and "\<not> py_isspace (hd (dropWhile py_isspace yyyy))"
    and "int_char (hd (dropWhile py_isspace yyyy))"
    and "py_int_str (dropWhile py_isspace yyyy) = Inr y"
    and "\<forall>c\<in>set (dropWhile py_isspace yyyy). c \<noteq> CHR ''.''"
proof -
  have same: "py_isspace c = int_space c" if "c \<in> set yyyy" for c
    using py_int_str_chars[OF assms that] int_space_isspace int_char_not_space by blast
  then have d: "dropWhile py_isspace yyyy = dropWhile int_space yyyy"
    by (intro dropWhile_cong) simp_all
  have core: "strip_while int_space (dropWhile int_space yyyy) = strip_while int_space yyyy"
    by (simp add: strip_while_def)
  then show int: "py_int_str (dropWhile py_isspace yyyy) = Inr y"
    using assms by (simp add: d py_int_str_def)
  have "strip_while int_space yyyy \<noteq> []" using py_int_str_core[OF assms] by simp
  then have "dropWhile int_space yyyy \<noteq> []"
    by (cases "dropWhile int_space yyyy") (simp_all add: strip_while_def)
  then show ne: "dropWhile py_isspace yyyy \<noteq> []" by (simp add: d)
  then show ns: "\<not> py_isspace (hd (dropWhile py_isspace yyyy))" by (rule hd_dropWhile)
  have sub: "set (dropWhile py_isspace yyyy) \<subseteq> set yyyy" using set_dropWhileD by fastforce
  from ne have "hd (dropWhile py_isspace yyyy) \<in> set yyyy" using sub by (meson hd_in_set subsetD)
  from py_int_str_chars[OF assms this] ns int_space_isspace
  show "int_char (hd (dropWhile py_isspace yyyy))" by blast
  show "\<forall>c\<in>set (dropWhile py_isspace yyyy). c \<noteq> CHR ''.''"
  proof
    fix c assume "c \<in> set (dropWhile py_isspace yyyy)"
    then have "c \<in> set yyyy" using sub by blast
    from py_int_str_chars[OF assms this] show "c \<noteq> CHR ''.''"
      using int_char_not_special[of c] int_space_isspace[of c] isspace_not_special[of c] by blast
  qed
qed

lemma year_of_dated_line:
  assumes ind: "\<forall>c\<in>set ind. py_isspace c" and int: "py_int_str yyyy = Inr y"
  shows "year_of_line (ind @ ''date='' @ yyyy @ ''.'' @ rest) = Inr y"
proof -
  define y' where "y' = dropWhile py_isspace yyyy"
  define ws where "ws = takeWhile py_isspace yyyy"
  note l = py_int_str_lstrip[OF int, folded y'_def]
  have yyyy: "yyyy = ws @ y'" by (simp add: ws_def y'_def)
  have ws: "\<forall>c\<in>set ws. py_isspace c" unfolding ws_def using set_takeWhileD by fastforce
  have noeq: "\<forall>c\<in>set yyyy. c \<noteq> CHR ''=''"
  proof
    fix c assume "c \<in> set yyyy"
    from py_int_str_chars[OF int this] show "c \<noteq> CHR ''=''"
      using int_char_not_special[of c] int_space_isspace[of c] isspace_not_special[of c] by blast
  qed
  have line: "ind @ ''date='' @ yyyy @ ''.'' @ rest
      = (ind @ ''date'') @ CHR ''='' # (yyyy @ CHR ''.'' # rest)" by simp
  have "CHR ''='' \<notin> set (ind @ ''date'')" using ind isspace_not_special by auto
  then have "py_index (py_split CHR ''='' (ind @ ''date='' @ yyyy @ ''.'' @ rest)) 1
      = Inr (takeWhile (\<lambda>c. c \<noteq> CHR ''='') (yyyy @ CHR ''.'' # rest))"
    unfolding line by (rule py_index_1_split)
  also have "takeWhile (\<lambda>c. c \<noteq> CHR ''='') (yyyy @ CHR ''.'' # rest)
      = yyyy @ CHR ''.'' # takeWhile (\<lambda>c. c \<noteq> CHR ''='') rest"
    using noeq by simp
  finally have seg: "py_index (py_split CHR ''='' (ind @ ''date='' @ yyyy @ ''.'' @ rest)) 1
      = Inr (ws @ (y' @ CHR ''.'' # takeWhile (\<lambda>c. c \<noteq> CHR ''='') rest))"
    by (simp add: yyyy)
  obtain r2 where s1: "py_strip (ws @ (y' @ CHR ''.'' # takeWhile (\<lambda>c. c \<noteq> CHR ''='') rest))
      = y' @ CHR ''.'' # r2"
  proof -
    have "\<not> py_isspace (CHR ''.'')" by (simp add: py_isspace_def)
    from strip_while_keeps[OF l(1) l(2) this] ws that show ?thesis
      by (metis py_strip_def strip_while_prefix)
  qed
  obtain r3 where s2: "py_strip_chars [CHR 0x22] (y' @ CHR ''.'' # r2) = y' @ CHR ''.'' # r3"
  proof -
    have a: "\<not> (hd y' \<in> set [CHR 0x22])" using int_char_not_special[OF l(3)] by simp
    have b: "\<not> (CHR ''.'' \<in> set [CHR 0x22])" by simp
    from strip_while_keeps[of y' "\<lambda>c. c \<in> set [CHR 0x22]" "CHR ''.''", OF l(1) a b] that
    show ?thesis unfolding py_strip_chars_def by blast
  qed
  have fld: "field_of_line (ind @ ''date='' @ yyyy @ ''.'' @ rest) = Inr (y' @ CHR ''.'' # r3)"
    unfolding field_of_line_def seg by (simp add: s1 s2)
  have "py_index (py_split CHR ''.'' (y' @ CHR ''.'' # r3)) 0
      = Inr (takeWhile (\<lambda>c. c \<noteq> CHR ''.'') (y' @ CHR ''.'' # r3))"
    by (rule py_index_0)
  also have "takeWhile (\<lambda>c. c \<noteq> CHR ''.'') (y' @ CHR ''.'' # r3) = y'"
    using l(5) by simp
  finally have idx: "py_index (py_split CHR ''.'' (y' @ CHR ''.'' # r3)) 0 = Inr y'" .
  show ?thesis
    unfolding year_of_line_def fld by (simp add: idx l(4))
qed

lemma dated_line_is_date_line:
  assumes "\<forall>c\<in>set ind. py_isspace c"
  shows "py_startswith ''date='' (py_strip (ind @ ''date='' @ tl0))"
proof -
  have "py_strip (ind @ ''date='' @ tl0) = strip_while py_isspace (''date'' @ CHR ''='' # tl0)"
    using strip_while_prefix[OF assms, of "''date='' @ tl0"] by (simp add: py_strip_def)
  moreover have "\<not> py_isspace (hd ''date'')" "\<not> py_isspace (CHR ''='')"
    by (simp_all add: py_isspace_def)
  then obtain b' where "strip_while py_isspace (''date'' @ CHR ''='' # tl0)
      = ''date'' @ CHR ''='' # b'"
    using strip_while_keeps[of "''date''" py_isspace "CHR ''=''" tl0] by auto
  ultimately show ?thesis by (simp add: py_startswith_def)
qed

lemma year_loop_first:
  assumes "\<forall>l\<in>set pre. \<not> P l" "P line"
  shows "year_loop P (pre @ line # post)
    = (case year_of_line line of Inl e \<Rightarrow> Inl e | Inr year \<Rightarrow> Inr (Some year))"
  using assms by (induction pre) simp_all

text \<open>
  Claim C4, amended. Let the file be readable and let the first line of its decoded
  text (split at line feeds) whose trimmed form starts with \<^verbatim>\<open>date=\<close> be a line
  \<^verbatim>\<open>date=YYYY.M.D\<close>, possibly indented, where \<^verbatim>\<open>int\<close> accepts \<^verbatim>\<open>YYYY\<close>. Then
  \<^verbatim>\<open>get_save_year\<close> returns that integer, whatever stands in the lines before, in the
  rest of the line and in the lines after it.
\<close>

theorem year_of_first_date_line:
  assumes "os_open w p = Inr txt"
    and "py_split LF txt = pre @ (ind @ ''date='' @ yyyy @ ''.'' @ rest) # post"
    and "\<forall>l\<in>set pre. \<not> py_startswith ''date='' (py_strip l)"
    and "\<forall>c\<in>set ind. py_isspace c"
    and "py_int_str yyyy = Inr y"
  shows "get_save_year w p = Inr (Some y)"
proof -
  let ?line = "ind @ ''date='' @ yyyy @ ''.'' @ rest"
  have d: "py_startswith ''date='' (py_strip ?line)"
    using assms(4) by (rule dated_line_is_date_line)
  have y: "year_of_line ?line = Inr y"
    using assms(4,5) by (rule year_of_dated_line)
  have "year_loop (\<lambda>line. py_startswith ''date='' (py_strip line)) (pre @ ?line # post)
      = Inr (Some y)"
    unfolding year_loop_first[OF assms(3) d] y by simp
  then have "year_loop (\<lambda>line. py_startswith ''date='' (py_strip line)) (py_split LF txt)
      = Inr (Some y)"
    by (simp only: assms(2))
  then have "get_save_year_try w p = Inr (Some y)"
    by (simp add: get_save_year_try_def read_binary_lines_def assms(1))
  then show ?thesis by (simp add: get_save_year_def)
qed

theorem year_of_first_date_line_witness:
  "os_open noisy_world ''/saves/noise.eu4''
     = Inr ([CHR 0x00, CHR 0xFF, CHR 0x01] @ [LF] @ ''  date=1444.11.11''
             @ [CR, LF] @ [CHR 0x02, CHR 0xFE] @ ''date=9.9.9'')
   \<and> py_split LF ([CHR 0x00, CHR 0xFF, CHR 0x01] @ [LF] @ ''  date=1444.11.11''
             @ [CR, LF] @ [CHR 0x02, CHR 0xFE] @ ''date=9.9.9'')
       = [[CHR 0x00, CHR 0xFF, CHR 0x01]]
         @ (''  '' @ ''date='' @ ''1444'' @ ''.'' @ (''11.11'' @ [CR]))
         # [[CHR 0x02, CHR 0xFE] @ ''date=9.9.9'']
   \<and> py_int_str ''1444'' = Inr 1444
   \<and> get_save_year noisy_world ''/saves/noise.eu4'' = Inr (Some 1444)"
proof -
  let ?txt = "[CHR 0x00, CHR 0xFF, CHR 0x01] @ [LF] @ ''  date=1444.11.11''
             @ [CR, LF] @ [CHR 0x02, CHR 0xFE] @ ''date=9.9.9''"
  have h: "os_open noisy_world ''/saves/noise.eu4'' = Inr ?txt"
    by (simp add: os_open_def noisy_world_def save_file_def)
  have s: "py_split LF ?txt = [[CHR 0x00, CHR 0xFF, CHR 0x01]]
         @ (''  '' @ ''date='' @ ''1444'' @ ''.'' @ (''11.11'' @ [CR]))
         # [[CHR 0x02, CHR 0xFE] @ ''date=9.9.9'']"
    by code_simp
  have p: "\<forall>l\<in>set [[CHR 0x00, CHR 0xFF, CHR 0x01]]. \<not> py_startswith ''date='' (py_strip l)"
    by code_simp
  have i: "\<forall>c\<in>set ''  ''. py_isspace c" by code_simp
  have n: "py_int_str ''1444'' = Inr 1444" by code_simp
  from year_of_first_date_line [OF h s p i n] h s n show ?thesis by blast
qed

text \<open>
  Claim C4 promises the year of a line \<^verbatim>\<open>date=YYYY.M.D\<close> of the file whose \<^verbatim>\<open>YYYY\<close>
  is an integer. In a file whose first line starting with \<^verbatim>\<open>date=\<close> is \<^verbatim>\<open>date=abc\<close>
  and whose next line is \<^verbatim>\<open>date=1500.1.1\<close>, the only such line has the year 1500,
  but \<^verbatim>\<open>get_save_year\<close> returns no year: \<^verbatim>\<open>int('abc')\<close> raises at the first line and
  the scan ends there.
\<close>

theorem any_date_line_decides_counterexample:
  "os_open noisy_world ''/saves/bad_first_date.eu4''
     = Inr (''date=abc'' @ [LF] @ ''date=1500.1.1'' @ [LF])
   \<and> py_split LF (''date=abc'' @ [LF] @ ''date=1500.1.1'' @ [LF])
       = [''date=abc'', ''date=1500.1.1'', []]
   \<and> py_int_str ''abc'' = Inl ValueError
   \<and> py_int_str ''1500'' = Inr 1500
   \<and> get_save_year noisy_world ''/saves/bad_first_date.eu4'' = Inr None"
  by code_simp

subsection \<open>Writing a backup\<close>

























lemma shutil_copy2_raises:
  assumes "shutil_copy2 w src dst = (Inl e, w')"
  shows "trace w' = trace w @ [CallCopy2 src dst] \<and> (\<forall>p. p \<noteq> dst \<longrightarrow> files w' p = files w p)"
proof (cases "files w src")
  case None
  with assms show ?thesis by (auto simp: shutil_copy2_def Let_def)
next
  case (Some f)
  show ?thesis
  proof (cases "write_error w dst")
    case None
    with assms Some show ?thesis
      by (auto simp: shutil_copy2_def Let_def split: if_splits)
  next
    case (Some cf)
    with assms \<open>files w src = Some f\<close> show ?thesis
      by (cases cf) (auto simp: shutil_copy2_def Let_def split: if_splits)
  qed
qed





lemma run_Crashed: "run is (Crashed e w) = Crashed e w"
  by (cases "is") simp_all

text \<open>
  Claim C3 says that a failed copy is logged and the loop takes the next pass. The
  code does neither. \<^verbatim>\<open>shutil.copy2\<close> is called with no handler of its own and the only
  handler around the loop is \<^verbatim>\<open>except KeyboardInterrupt\<close>, while the removal of an old
  backup, the reading of the modification time and the extraction of tag and year
  each catch their failures. So on a pass that makes the change check and finds the
  modification time changed, a copy that raises any other exception ends the loop
  with that exception, whatever passes would follow: the call of \<^verbatim>\<open>shutil.copy2\<close> is
  the last event, nothing is logged, nothing is pruned, the state of the loop with
  its \<^verbatim>\<open>last_mtime\<close> is gone, and the world is as the failed copy left it, which may
  include a partial destination file.
\<close>

theorem copy_failure_stops_monitoring:
  assumes "\<not> ctrl_c i" "\<not> ctrl_q i"
    and "is_multiple (heartbeat m + 1) (interval m) = Inr True"
    and "get_mtime w (SOURCE m) = Inr (Some t)" "t \<noteq> 0" "Some t \<noteq> last_mtime m"
    and "get_player_tag (if (heartbeat m + 1) mod 10 = 0 then log LogWatching w else w) (SOURCE m)
          = (Inr tag, w1)"
    and "shutil_copy2 w1 (SOURCE m)
           (path_join (BACKUP_DIR m) (backup_name_of tag (strftime (localtime i)))) = (Inl e, w2)"
    and "e \<noteq> KeyboardInterrupt"
  shows "tick i m w = Crashed e w2
    \<and> run (i # rest) (Watching m w) = Crashed e w2
    \<and> \<not> is_Watching (run (i # rest) (Watching m w))
    \<and> trace w2 = trace w1 @ [CallCopy2 (SOURCE m)
               (path_join (BACKUP_DIR m) (backup_name_of tag (strftime (localtime i))))]"
proof -
  let ?m1 = "m\<lparr>heartbeat := heartbeat m + 1\<rparr>"
  let ?w0 = "if (heartbeat m + 1) mod 10 = 0 then log LogWatching w else w"
  have wb: "write_backup (localtime i) ?m1 ?w0 = (Inl e, w2)"
    using assms(7,8) by (simp add: write_backup_def Let_def)
  have mb: "make_backup (localtime i) (Some t) ?m1 ?w0 = Crashed e w2"
    using wb assms(9) by (simp add: make_backup_def loop_except_def)
  have cc: "change_check (localtime i) ?m1 w = Crashed e w2"
    using assms(4,5,6) mb by (simp add: change_check_def Let_def)
  have tk: "tick i m w = Crashed e w2"
    unfolding tick_change_check[OF assms(1,2,3)] by (rule cc)
  have tr: "trace w2 = trace w1 @ [CallCopy2 (SOURCE m)
               (path_join (BACKUP_DIR m) (backup_name_of tag (strftime (localtime i))))]"
    using shutil_copy2_raises[OF assms(8)] by blast
  from tk tr show ?thesis by (simp add: run_Crashed)
qed

theorem copy_failure_stops_monitoring_witness:
  "\<not> ctrl_c example_input \<and> \<not> ctrl_q example_input
   \<and> is_multiple (heartbeat changed_monitor + 1) (interval changed_monitor) = Inr True
   \<and> get_mtime full_disk_world (SOURCE changed_monitor) = Inr (Some 100)
   \<and> Some 100 \<noteq> last_mtime changed_monitor
   \<and> fst (shutil_copy2 full_disk_world ''/saves/mp_autosave.eu4''
            ''/saves/backups/mp_autosave_SWE_2024-03-09_21-05-07.eu4'') = Inl OSError
   \<and> tick example_input changed_monitor full_disk_world
       = Crashed OSError
           (snd (shutil_copy2 full_disk_world ''/saves/mp_autosave.eu4''
                   ''/saves/backups/mp_autosave_SWE_2024-03-09_21-05-07.eu4''))
   \<and> run [example_input, example_input] (Watching changed_monitor full_disk_world)
       = Crashed OSError
           (snd (shutil_copy2 full_disk_world ''/saves/mp_autosave.eu4''
                   ''/saves/backups/mp_autosave_SWE_2024-03-09_21-05-07.eu4''))
   \<and> trace (snd (shutil_copy2 full_disk_world ''/saves/mp_autosave.eu4''
                   ''/saves/backups/mp_autosave_SWE_2024-03-09_21-05-07.eu4''))
       = [CallCopy2 ''/saves/mp_autosave.eu4''
            ''/saves/backups/mp_autosave_SWE_2024-03-09_21-05-07.eu4'']
   \<and> map_option content
        (files (snd (shutil_copy2 full_disk_world ''/saves/mp_autosave.eu4''
                   ''/saves/backups/mp_autosave_SWE_2024-03-09_21-05-07.eu4''))
           ''/saves/backups/mp_autosave_SWE_2024-03-09_21-05-07.eu4'') = Some []"
proof -
  let ?src = "''/saves/mp_autosave.eu4''"
  let ?dst = "''/saves/backups/mp_autosave_SWE_2024-03-09_21-05-07.eu4''"
  let ?w2 = "snd (shutil_copy2 full_disk_world ?src ?dst)"
  have a: "\<not> ctrl_c example_input" "\<not> ctrl_q example_input"
    by (simp_all add: example_input_def)
  have d: "is_multiple (heartbeat changed_monitor + 1) (interval changed_monitor) = Inr True"
    using example_due by (simp add: changed_monitor_def)
  have g: "get_mtime full_disk_world (SOURCE changed_monitor) = Inr (Some 100)"
    by (simp add: get_mtime_def os_getmtime_def full_disk_world_def example_world_def
        changed_monitor_def example_monitor_def save_file_def)
  have n: "(100::real) \<noteq> 0" "Some (100::real) \<noteq> last_mtime changed_monitor"
    by (simp_all add: changed_monitor_def example_monitor_def)
  have h: "(heartbeat changed_monitor + 1) mod 10 \<noteq> 0"
    by (simp add: changed_monitor_def example_monitor_def)
  have src: "SOURCE changed_monitor = ?src"
    by (simp add: changed_monitor_def example_monitor_def)
  have "get_player_tag_try full_disk_world (SOURCE changed_monitor) = Inr (Some ''SWE'')"
    by code_simp
  then have t: "get_player_tag (if (heartbeat changed_monitor + 1) mod 10 = 0
        then log LogWatching full_disk_world else full_disk_world) (SOURCE changed_monitor)
      = (Inr ''SWE'', full_disk_world)"
    using h by (simp add: get_player_tag_def)
  have dst: "path_join (BACKUP_DIR changed_monitor)
           (backup_name_of ''SWE'' (strftime (localtime example_input))) = ?dst" by code_simp
  have f: "fst (shutil_copy2 full_disk_world ?src ?dst) = Inl OSError" by code_simp
  then have c: "shutil_copy2 full_disk_world (SOURCE changed_monitor)
         (path_join (BACKUP_DIR changed_monitor)
           (backup_name_of ''SWE'' (strftime (localtime example_input)))) = (Inl OSError, ?w2)"
    unfolding dst src by (simp add: prod_eq_iff)
  have e: "OSError \<noteq> KeyboardInterrupt" by simp
  have tr: "trace ?w2 = [CallCopy2 ?src ?dst]" by code_simp
  have p: "map_option content (files ?w2 ?dst) = Some []" by code_simp
  from copy_failure_stops_monitoring [OF a d g n t c e, of "[example_input]"]
  have "tick example_input changed_monitor full_disk_world = Crashed OSError ?w2"
    and "run [example_input, example_input] (Watching changed_monitor full_disk_world)
       = Crashed OSError ?w2"
    by blast+
  with a d g n(2) f tr p show ?thesis by blast
qed

end
